theory Spec2Isabelle
  imports Main "HOL-Library.AList" "HOL-Library.Log_Nat"
begin

section \<open>Polymarket insider tracker: data model\<close>

text \<open>
  The embedding follows \<^verbatim>\<open>src/types.ts\<close>, \<^verbatim>\<open>src/config.ts\<close>, \<^verbatim>\<open>src/api.ts\<close>
  and \<^verbatim>\<open>src/main.ts\<close>. Strings are lists of characters (one \<^typ>\<open>char\<close> per code
  unit; wallet addresses and numeric fields are ASCII). Record fields whose names occur
  in several interfaces, or clash with a constant of HOL, carry a suffix naming the
  interface (\<open>_t\<close> for \<open>Trade\<close>, \<open>_a\<close> for \<open>UserActivity\<close>, \<open>_m\<close> for \<open>Market\<close>).
\<close>

subsection \<open>JavaScript numbers\<close>

text \<open>
  A JavaScript number is a binary64 value: \<open>NaN\<close>, an infinity, or a finite value, kept
  here as the rational it denotes. The two zeros are identified: the program only
  compares numbers, multiplies them and tests them for truthiness, and \<open>-0\<close> behaves as
  \<open>0\<close> in each of these (\<open>-0 || 0\<close> is \<open>0\<close>).
\<close>

datatype jsnum = NaN | Num rat | PosInf | NegInf

datatype Side = BUY | SELL

datatype AlertLevel = HIGH | MEDIUM | LOW

record Trade =
  id_t :: string
  taker_order_id :: string
  market_t :: string
  asset_id_t :: string
  side_t :: Side
  size_t :: string
  fee_rate_bps :: string
  price_t :: string
  status :: string
  match_time :: string
  last_update :: string
  outcome :: string
  bucket_index :: int
  owner :: string
  maker_address :: string
  transaction_hash_t :: string
  type_t :: string
  valueUsd :: "jsnum option"

record UserActivity =
  id_a :: string
  user :: string
  market_a :: string
  asset_id_a :: string
  type_a :: string
  side_a :: "Side option"
  size_a :: "string option"
  price_a :: "string option"
  timestamp_a :: string
  transaction_hash_a :: string

text \<open>
  The object \<open>{ uniqueMarkets, totalTrades }\<close> returned by \<open>calculateUserStats\<close>, its
  extension by a \<open>timestamp\<close> held in the wallet cache, and the \<open>UserStats\<close> interface.
\<close>

record Stats =
  uniqueMarkets :: nat
  totalTrades :: nat

record CachedStats = Stats +
  timestamp :: int

record UserStats =
  address :: string
  uniqueMarkets_u :: nat
  totalTrades_u :: nat
  activities :: "UserActivity list"

record MarketToken =
  token_id :: string
  outcome_k :: string
  price_k :: jsnum
  winner :: bool

record Market =
  id_m :: string
  question :: string
  conditionId :: string
  slug :: string
  description :: string
  endDate :: string
  outcomes :: "string list"
  outcomePrices :: "string list"
  volume_m :: string
  volume24hr :: string
  active_m :: bool
  closed_m :: bool
  marketMakerAddress :: string
  tokens :: "MarketToken list"

record SuspectTrade =
  trade :: Trade
  userStats :: UserStats
  market :: "Market option"
  reason :: string
  alertLevel :: AlertLevel

subsection \<open>String.prototype.slice and JavaScript sets\<close>

text \<open>
  \<open>s.slice(a, b)\<close>: a negative index counts from the end, both indices are clamped to
  the string, and an absent \<open>b\<close> is the length.
\<close>

definition slice :: "string \<Rightarrow> int \<Rightarrow> int option \<Rightarrow> string" where
  "slice s a b =
     (let len = int (length s);
          from = (if a < 0 then max (len + a) 0 else min a len);
          e = (case b of None \<Rightarrow> len | Some b' \<Rightarrow> b');
          to = (if e < 0 then max (len + e) 0 else min e len)
      in take (nat (to - from)) (drop (nat from) s))"

text \<open>\<open>xs.slice(a, b)\<close> on an array, for indices that are not negative.\<close>

definition slice_list :: "'a list \<Rightarrow> nat \<Rightarrow> nat \<Rightarrow> 'a list" where
  "slice_list xs a b = take (min b (length xs) - a) (drop a xs)"

text \<open>
  A JavaScript \<open>Set\<close> iterates in insertion order and holds each value once: a list
  without repetitions, oldest first. \<open>add\<close> of a present value changes nothing.
\<close>

definition Set_has :: "'a list \<Rightarrow> 'a \<Rightarrow> bool" where
  "Set_has s x = (x \<in> set s)"

definition Set_add :: "'a \<Rightarrow> 'a list \<Rightarrow> 'a list" where
  "Set_add x s = (if Set_has s x then s else s @ [x])"

definition Set_delete :: "'a \<Rightarrow> 'a list \<Rightarrow> 'a list" where
  "Set_delete x s = removeAll x s"

section \<open>JavaScript primitives used by the program\<close>

subsection \<open>Rounding to binary64\<close>

text \<open>
  Every arithmetic result and every parsed literal is rounded to the nearest binary64
  value, ties to the even significand. For \<open>x > 0\<close>, \<open>floorlog2 x\<close> is the \<open>e\<close> with
  \<open>2^e \<le> x < 2^(e+1)\<close>; the spacing of binary64 values at \<open>x\<close> is \<open>2^(e - 52)\<close>, and
  never below \<open>2^(-1074)\<close> (the subnormal range). A rounded magnitude of \<open>2^1024\<close> or
  more is an infinity.
\<close>

definition pow2 :: "int \<Rightarrow> rat" where
  "pow2 k = (if 0 \<le> k then 2 ^ nat k else 1 / 2 ^ nat (- k))"

definition floorlog2 :: "rat \<Rightarrow> int" where
  "floorlog2 x = (if 1 \<le> x then bitlen \<lfloor>x\<rfloor> - 1 else - bitlen (\<lceil>1 / x\<rceil> - 1))"

definition roundTie :: "rat \<Rightarrow> int \<Rightarrow> int" where
  "roundTie x f =
     (if x - of_int f < 1 / 2 then f
      else if 1 / 2 < x - of_int f then f + 1
      else if even f then f else f + 1)"

definition roundHalfEven :: "rat \<Rightarrow> int" where
  "roundHalfEven x = roundTie x \<lfloor>x\<rfloor>"

definition binary64_pack :: "bool \<Rightarrow> rat \<Rightarrow> jsnum" where
  "binary64_pack neg v =
     (if pow2 1024 \<le> v then (if neg then NegInf else PosInf)
      else Num (if neg then - v else v))"

definition binary64_at :: "int \<Rightarrow> rat \<Rightarrow> rat" where
  "binary64_at e a = of_int (roundHalfEven (a / pow2 e)) * pow2 e"

definition binary64 :: "rat \<Rightarrow> jsnum" where
  "binary64 x =
     (if x = 0 then Num 0
      else binary64_pack (x < 0) (binary64_at (max (floorlog2 \<bar>x\<bar> - 52) (- 1074)) \<bar>x\<bar>))"

subsection \<open>Multiplication, truthiness, comparison\<close>

text \<open>
  \<open>a * b\<close>, \<open>-a\<close>, \<open>a || 0\<close> (\<open>NaN\<close> and zero are falsy) and \<open>a >= k\<close> for an integer
  \<open>k\<close> (false when \<open>a\<close> is \<open>NaN\<close>).
\<close>

fun js_mul :: "jsnum \<Rightarrow> jsnum \<Rightarrow> jsnum" where
  "js_mul NaN _ = NaN"
| "js_mul _ NaN = NaN"
| "js_mul (Num a) (Num b) = binary64 (a * b)"
| "js_mul (Num a) PosInf = (if a = 0 then NaN else if 0 < a then PosInf else NegInf)"
| "js_mul (Num a) NegInf = (if a = 0 then NaN else if 0 < a then NegInf else PosInf)"
| "js_mul PosInf (Num b) = (if b = 0 then NaN else if 0 < b then PosInf else NegInf)"
| "js_mul NegInf (Num b) = (if b = 0 then NaN else if 0 < b then NegInf else PosInf)"
| "js_mul PosInf PosInf = PosInf"
| "js_mul PosInf NegInf = NegInf"
| "js_mul NegInf PosInf = NegInf"
| "js_mul NegInf NegInf = PosInf"

fun js_neg :: "jsnum \<Rightarrow> jsnum" where
  "js_neg NaN = NaN"
| "js_neg (Num a) = Num (- a)"
| "js_neg PosInf = NegInf"
| "js_neg NegInf = PosInf"

fun js_or0 :: "jsnum \<Rightarrow> jsnum" where
  "js_or0 NaN = Num 0"
| "js_or0 (Num a) = Num a"
| "js_or0 PosInf = PosInf"
| "js_or0 NegInf = NegInf"

fun js_ge_int :: "jsnum \<Rightarrow> int \<Rightarrow> bool" where
  "js_ge_int NaN k = False"
| "js_ge_int (Num a) k = (of_int k \<le> a)"
| "js_ge_int PosInf k = True"
| "js_ge_int NegInf k = False"

subsection \<open>parseFloat\<close>

text \<open>
  \<open>parseFloat(s)\<close> skips leading white space, takes the longest prefix of the rest that
  is a \<open>StrDecimalLiteral\<close> (an optional sign, then \<open>Infinity\<close> or decimal digits with
  an optional fraction and an optional exponent), and returns its value rounded to
  binary64; it returns \<open>NaN\<close> when no prefix is such a literal. It never throws. The
  scanner returns the value together with the characters it did not consume.
\<close>

definition isWhiteSpace :: "char \<Rightarrow> bool" where
  "isWhiteSpace c = (of_char c \<in> set [9, 10, 11, 12, 13, 32, 160 :: nat])"

definition isDigit :: "char \<Rightarrow> bool" where
  "isDigit c = (c \<in> set ''0123456789'')"

definition digitValue :: "char \<Rightarrow> nat" where
  "digitValue c = of_char c - 48"

definition digitsValue :: "string \<Rightarrow> nat" where
  "digitsValue ds = foldl (\<lambda>a c. 10 * a + digitValue c) 0 ds"

definition pow10 :: "int \<Rightarrow> rat" where
  "pow10 k = (if 0 \<le> k then 10 ^ nat k else 1 / 10 ^ nat (- k))"

text \<open>
  An exponent part is consumed only when at least one digit follows the indicator and
  its optional sign; otherwise the exponent is 0 and nothing of \<open>r\<close> is consumed.
\<close>

definition scanDigitsOr :: "string \<Rightarrow> string \<Rightarrow> int \<Rightarrow> int \<times> string" where
  "scanDigitsOr r ds sg =
     (if takeWhile isDigit ds = [] then (0, r)
      else (sg * int (digitsValue (takeWhile isDigit ds)), dropWhile isDigit ds))"

definition scanExponent :: "string \<Rightarrow> int \<times> string" where
  "scanExponent r =
     (case r of
        [] \<Rightarrow> (0, r)
      | c # r1 \<Rightarrow>
          if c = CHR ''e'' \<or> c = CHR ''E'' then
            (case r1 of
               [] \<Rightarrow> (0, r)
             | d # r2 \<Rightarrow>
                 if d = CHR ''+'' then scanDigitsOr r r2 1
                 else if d = CHR ''-'' then scanDigitsOr r r2 (- 1)
                 else scanDigitsOr r r1 1)
          else (0, r))"

text \<open>Integer digits, fraction digits and the rest; a literal needs a digit on one side.\<close>

definition scanMantissa :: "string \<Rightarrow> (string \<times> string \<times> string) option" where
  "scanMantissa u =
     (case dropWhile isDigit u of
        [] \<Rightarrow> if takeWhile isDigit u = [] then None else Some (takeWhile isDigit u, [], [])
      | c # r \<Rightarrow>
          if c = CHR ''.'' then
            (if takeWhile isDigit u = [] \<and> takeWhile isDigit r = [] then None
             else Some (takeWhile isDigit u, takeWhile isDigit r, dropWhile isDigit r))
          else if takeWhile isDigit u = [] then None
          else Some (takeWhile isDigit u, [], c # r))"

definition decimalValue :: "string \<Rightarrow> string \<Rightarrow> int \<Rightarrow> rat" where
  "decimalValue ip fp ex = of_nat (digitsValue (ip @ fp)) * pow10 (ex - int (length fp))"

definition scanUnsignedDecimal :: "string \<Rightarrow> (jsnum \<times> string) option" where
  "scanUnsignedDecimal u =
     (if take 8 u = ''Infinity'' then Some (PosInf, drop 8 u)
      else (case scanMantissa u of
              None \<Rightarrow> None
            | Some (ip, fp, r2) \<Rightarrow>
                (case scanExponent r2 of
                   (ex, r3) \<Rightarrow> Some (binary64 (decimalValue ip fp ex), r3))))"

definition scanStrDecimalLiteral :: "string \<Rightarrow> (jsnum \<times> string) option" where
  "scanStrDecimalLiteral t =
     (case t of
        [] \<Rightarrow> None
      | c # u \<Rightarrow>
          if c = CHR ''-'' then map_option (\<lambda>(v, r). (js_neg v, r)) (scanUnsignedDecimal u)
          else if c = CHR ''+'' then scanUnsignedDecimal u
          else scanUnsignedDecimal t)"

definition parseFloat :: "string \<Rightarrow> jsnum" where
  "parseFloat s =
     (case scanStrDecimalLiteral (dropWhile isWhiteSpace s) of
        None \<Rightarrow> NaN
      | Some (v, r) \<Rightarrow> v)"

text \<open>
  A numeric field is well formed when the literal is all of it (white space around it
  apart); any other string is a malformed numeric string.
\<close>

definition wellFormedNumeric :: "string \<Rightarrow> bool" where
  "wellFormedNumeric s =
     (case scanStrDecimalLiteral (dropWhile isWhiteSpace s) of
        None \<Rightarrow> False
      | Some (v, r) \<Rightarrow> dropWhile isWhiteSpace r = [])"

subsection \<open>Decimal rendering of a count and Array.prototype.join\<close>

definition digitChar :: "nat \<Rightarrow> char" where
  "digitChar d = ''0123456789'' ! d"

fun decimal :: "nat \<Rightarrow> string" where
  "decimal n = (if n < 10 then [digitChar n] else decimal (n div 10) @ [digitChar (n mod 10)])"

fun join :: "string \<Rightarrow> string list \<Rightarrow> string" where
  "join sep [] = []"
| "join sep [x] = x"
| "join sep (x # y # ys) = x @ sep @ join sep (y # ys)"

text \<open>\<open>s.includes(t)\<close>: \<open>t\<close> occurs in \<open>s\<close> as a contiguous run.\<close>

fun includes_str :: "string \<Rightarrow> string \<Rightarrow> bool" where
  "includes_str [] t = (t = [])"
| "includes_str (c # s) t = (take (length t) (c # s) = t \<or> includes_str s t)"

section \<open>api.ts: pure helpers\<close>

text \<open>
  \<^verbatim>\<open>
  export function maskAddress(address: string): string {
      if (!address || address.length < 10) return address;
      return `${address.slice(0, 5)}...${address.slice(-3)}`;
  }
  \<close>
\<close>

definition maskAddress :: "string \<Rightarrow> string" where
  "maskAddress addr =
     (if addr = [] \<or> length addr < 10 then addr
      else slice addr 0 (Some 5) @ ''...'' @ slice addr (- 3) None)"

text \<open>
  \<^verbatim>\<open>
  const uniqueMarkets = new Set<string>();
  let totalTrades = 0;
  for (const activity of activities) {
      if (activity.type === "trade" || activity.side) {
          uniqueMarkets.add(activity.market);
          totalTrades++;
      }
  }
  return { uniqueMarkets: uniqueMarkets.size, totalTrades };
  \<close>
  The optional \<open>side\<close> is truthy exactly when it is present.
\<close>

fun calculateUserStats_loop ::
  "UserActivity list \<Rightarrow> string list \<times> nat \<Rightarrow> string list \<times> nat" where
  "calculateUserStats_loop [] (markets, trades) = (markets, trades)"
| "calculateUserStats_loop (activity # rest) (markets, trades) =
     (if type_a activity = ''trade'' \<or> side_a activity \<noteq> None
      then calculateUserStats_loop rest (Set_add (market_a activity) markets, trades + 1)
      else calculateUserStats_loop rest (markets, trades))"

definition calculateUserStats :: "string \<Rightarrow> UserActivity list \<Rightarrow> Stats" where
  "calculateUserStats addr acts =
     (case calculateUserStats_loop acts ([], 0) of
        (markets, trades) \<Rightarrow> \<lparr>uniqueMarkets = length markets, totalTrades = trades\<rparr>)"

text \<open>The records that count: type \<open>"trade"\<close>, or a side value.\<close>

definition qualifies :: "UserActivity \<Rightarrow> bool" where
  "qualifies activity = (type_a activity = ''trade'' \<or> side_a activity \<noteq> None)"

text \<open>
  \<^verbatim>\<open>
  export function calculateTradeValue(trade: Trade): number {
      const price = parseFloat(trade.price) || 0;
      const size = parseFloat(trade.size) || 0;
      return price * size;
  }
  \<close>
\<close>

definition calculateTradeValue :: "Trade \<Rightarrow> jsnum" where
  "calculateTradeValue t =
     js_mul (js_or0 (parseFloat (price_t t))) (js_or0 (parseFloat (size_t t)))"

section \<open>config.ts\<close>

text \<open>
  The thresholds are read from the environment at start-up (\<open>parseInt\<close>, defaults 1000,
  5 and 2000, webhook empty) and are constants afterwards; the backoff schedule is fixed
  in the source. A configuration is a parameter of the model, \<open>defaultConfig\<close> the one
  without environment variables.
\<close>

record Config =
  MIN_TRADE_SIZE_USD :: int
  MAX_UNIQUE_MARKETS :: int
  POLL_INTERVAL_MS :: int
  DISCORD_WEBHOOK_URL :: string

definition defaultConfig :: Config where
  "defaultConfig =
     \<lparr>MIN_TRADE_SIZE_USD = 1000, MAX_UNIQUE_MARKETS = 5, POLL_INTERVAL_MS = 2000,
      DISCORD_WEBHOOK_URL = []\<rparr>"

definition INITIAL_BACKOFF_MS :: nat where
  "INITIAL_BACKOFF_MS = 1000"

definition MAX_BACKOFF_MS :: nat where
  "MAX_BACKOFF_MS = 60000"

definition BACKOFF_MULTIPLIER :: nat where
  "BACKOFF_MULTIPLIER = 2"

definition USER_CACHE_TTL_MS :: int where
  "USER_CACHE_TTL_MS = 60000"

section \<open>The world outside the process\<close>

text \<open>
  An HTTP request made through \<open>withRetry\<close> resolves with a payload, is rejected with
  status 429, or fails in any other way (time-out, 5xx, network error). The upstream
  services are a parameter: what the \<open>n\<close>-th request of the process receives, should
  it be a request of that kind. \<open>dateNow n\<close> is the \<open>n\<close>-th value read from
  \<open>Date.now()\<close>; \<open>toLocaleString\<close> is the runtime's locale formatting of a number;
  \<open>validDate s\<close> says whether \<open>new Date(s)\<close> is a valid date (\<open>toISOString\<close> throws a
  \<open>RangeError\<close> on an invalid one).
\<close>

datatype 'a response = Resolved 'a | Rejected429 | RejectedOther

record Upstream =
  tradesResponse :: "nat \<Rightarrow> Trade list response"
  activityResponse :: "nat \<Rightarrow> string \<Rightarrow> UserActivity list response"
  marketsResponse :: "nat \<Rightarrow> string \<Rightarrow> Market list response"
  dateNow :: "nat \<Rightarrow> int"
  toLocaleString :: "jsnum \<Rightarrow> string"
  validDate :: "string \<Rightarrow> bool"

section \<open>Process state\<close>

text \<open>
  The module-level variables of \<open>api.ts\<close> (\<open>currentBackoff\<close>) and \<open>main.ts\<close>
  (\<open>processedTradeIds\<close>, \<open>userStatsCache\<close>, \<open>marketCache\<close>, \<open>pollCount\<close>), and what the
  process has done so far: the number of HTTP requests issued through \<open>withRetry\<close>, the
  durations it has slept, the calls of the three fetch functions, and the number of
  clock reads. A JavaScript \<open>Map\<close> is a list of key-value pairs in insertion order, each
  key once.
\<close>

datatype Fetch = FetchTrades nat | FetchActivity string | FetchMarket string

record State =
  currentBackoff :: nat
  processedTradeIds :: "string list"
  userStatsCache :: "(string \<times> CachedStats) list"
  marketCache :: "(string \<times> Market option) list"
  pollCount :: nat
  requests :: nat
  sleeps :: "nat list"
  fetchLog :: "Fetch list"
  clockReads :: nat

definition initialState :: State where
  "initialState =
     \<lparr>currentBackoff = INITIAL_BACKOFF_MS, processedTradeIds = [], userStatsCache = [],
      marketCache = [], pollCount = 0, requests = 0, sleeps = [], fetchLog = [],
      clockReads = 0\<rparr>"

definition Map_get :: "('k \<times> 'v) list \<Rightarrow> 'k \<Rightarrow> 'v option" where
  "Map_get m k = map_of m k"

definition Map_has :: "('k \<times> 'v) list \<Rightarrow> 'k \<Rightarrow> bool" where
  "Map_has m k = (k \<in> fst ` set m)"

definition Map_set :: "'k \<Rightarrow> 'v \<Rightarrow> ('k \<times> 'v) list \<Rightarrow> ('k \<times> 'v) list" where
  "Map_set k v m = AList.update k v m"

definition Map_delete :: "'k \<Rightarrow> ('k \<times> 'v) list \<Rightarrow> ('k \<times> 'v) list" where
  "Map_delete k m = AList.delete k m"

section \<open>api.ts: retry and the fetch functions\<close>

text \<open>
  \<^verbatim>\<open>
  async function withRetry<T>(fn: () => Promise<T>, context: string): Promise<T | null> {
      try {
          const result = await fn();
          currentBackoff = INITIAL_BACKOFF_MS; // Reset on success
          return result;
      } catch (error) {
          const axiosError = error as AxiosError;
          if (axiosError.response?.status === 429) {
              await sleep(currentBackoff);
              currentBackoff = Math.min(currentBackoff * BACKOFF_MULTIPLIER, MAX_BACKOFF_MS);
              return withRetry(fn, context); // Retry
          }
          return null;
      }
  }
  \<close>
  \<open>fn n\<close> is the outcome of the call of \<open>fn\<close> that issues request number \<open>n\<close>. The
  recursion has no bound: under endless throttling the call never returns, which is the
  value \<open>None\<close>. A returned \<open>null\<close> is the inner \<open>None\<close>. \<open>backOff\<close> is the throttling
  branch up to the recursive call: the request was made, the process slept for
  \<open>currentBackoff\<close>, and \<open>currentBackoff\<close> is multiplied and capped.
\<close>

definition backOff :: "State \<Rightarrow> State" where
  "backOff st =
     st\<lparr>requests := requests st + 1,
        sleeps := sleeps st @ [currentBackoff st],
        currentBackoff := min (currentBackoff st * BACKOFF_MULTIPLIER) MAX_BACKOFF_MS\<rparr>"

partial_function (option) withRetry ::
  "(nat \<Rightarrow> 'a response) \<Rightarrow> State \<Rightarrow> ('a option \<times> State) option" where
  "withRetry fn st =
     (case fn (requests st) of
        Resolved result \<Rightarrow>
          Some (Some result,
                st\<lparr>requests := requests st + 1, currentBackoff := INITIAL_BACKOFF_MS\<rparr>)
      | Rejected429 \<Rightarrow> withRetry fn (backOff st)
      | RejectedOther \<Rightarrow>
          Some (None, st\<lparr>requests := requests st + 1\<rparr>))"

text \<open>
  \<open>fetchRecentTrades\<close> and \<open>fetchUserActivity\<close> return \<open>result || []\<close>;
  \<open>fetchMarketDetails\<close> resolves \<open>response.data[0] || null\<close> and returns what
  \<open>withRetry\<close> returns.
\<close>

definition fetchRecentTrades ::
  "Upstream \<Rightarrow> nat \<Rightarrow> State \<Rightarrow> (Trade list \<times> State) option" where
  "fetchRecentTrades up limit st =
     (case withRetry (tradesResponse up) (st\<lparr>fetchLog := fetchLog st @ [FetchTrades limit]\<rparr>) of
        None \<Rightarrow> None
      | Some (result, st') \<Rightarrow> Some (case result of None \<Rightarrow> [] | Some ts \<Rightarrow> ts, st'))"

definition fetchUserActivity ::
  "Upstream \<Rightarrow> string \<Rightarrow> State \<Rightarrow> (UserActivity list \<times> State) option" where
  "fetchUserActivity up addr st =
     (case withRetry (\<lambda>n. activityResponse up n addr)
             (st\<lparr>fetchLog := fetchLog st @ [FetchActivity addr]\<rparr>) of
        None \<Rightarrow> None
      | Some (result, st') \<Rightarrow> Some (case result of None \<Rightarrow> [] | Some acts \<Rightarrow> acts, st'))"

definition firstOrNull :: "'a list \<Rightarrow> 'a option" where
  "firstOrNull xs = (case xs of [] \<Rightarrow> None | x # _ \<Rightarrow> Some x)"

definition fetchMarketDetails ::
  "Upstream \<Rightarrow> string \<Rightarrow> State \<Rightarrow> (Market option \<times> State) option" where
  "fetchMarketDetails up cid st =
     (case withRetry (\<lambda>n. map_response firstOrNull (marketsResponse up n cid))
             (st\<lparr>fetchLog := fetchLog st @ [FetchMarket cid]\<rparr>) of
        None \<Rightarrow> None
      | Some (result, st') \<Rightarrow> Some (case result of None \<Rightarrow> None | Some m \<Rightarrow> m, st'))"

text \<open>What a call of \<open>withRetry\<close> leaves alone.\<close>

definition sameMain :: "State \<Rightarrow> State \<Rightarrow> bool" where
  "sameMain st st' =
     (processedTradeIds st' = processedTradeIds st
      \<and> userStatsCache st' = userStatsCache st
      \<and> marketCache st' = marketCache st
      \<and> pollCount st' = pollCount st
      \<and> fetchLog st' = fetchLog st
      \<and> clockReads st' = clockReads st)"

section \<open>main.ts: trade analysis\<close>

text \<open>
  The wallet-history lookup of \<open>analyzeTrade\<close>:
  \<^verbatim>\<open>
  const cachedStats = userStatsCache.get(walletAddress);
  const now = Date.now();
  if (cachedStats && (now - cachedStats.timestamp) < USER_CACHE_TTL_MS) {
      userStats = cachedStats;
  } else {
      const activities = await fetchUserActivity(walletAddress);
      userStats = calculateUserStats(walletAddress, activities);
      userStatsCache.set(walletAddress, { ...userStats, timestamp: now });
      if (userStatsCache.size > 1000) {
          const oldestKey = userStatsCache.keys().next().value;
          if (oldestKey) userStatsCache.delete(oldestKey);
      }
  }
  \<close>
\<close>

text \<open>
  \<open>cacheHit\<close> is the test of the \<open>if\<close>, \<open>evictOldest\<close> the size limit, \<open>refreshUserStats\<close>
  the \<open>else\<close> branch.
\<close>

definition cacheHit :: "(string \<times> CachedStats) list \<Rightarrow> string \<Rightarrow> int \<Rightarrow> bool" where
  "cacheHit cache walletAddress now =
     (case Map_get cache walletAddress of
        None \<Rightarrow> False
      | Some cachedStats \<Rightarrow> now - timestamp cachedStats < USER_CACHE_TTL_MS)"

definition evictOldest :: "(string \<times> CachedStats) list \<Rightarrow> (string \<times> CachedStats) list" where
  "evictOldest cache =
     (if 1000 < length cache then
        (case cache of
           [] \<Rightarrow> cache
         | (oldestKey, _) # _ \<Rightarrow> if oldestKey \<noteq> [] then Map_delete oldestKey cache else cache)
      else cache)"

definition refreshUserStats ::
  "Upstream \<Rightarrow> string \<Rightarrow> int \<Rightarrow> State \<Rightarrow> (Stats \<times> State) option" where
  "refreshUserStats up walletAddress now st =
     (case fetchUserActivity up walletAddress st of
        None \<Rightarrow> None
      | Some (acts, st1) \<Rightarrow>
          Some (calculateUserStats walletAddress acts,
                st1\<lparr>userStatsCache :=
                      evictOldest
                        (Map_set walletAddress
                           \<lparr>uniqueMarkets = uniqueMarkets (calculateUserStats walletAddress acts),
                            totalTrades = totalTrades (calculateUserStats walletAddress acts),
                            timestamp = now\<rparr>
                           (userStatsCache st1))\<rparr>))"

definition lookupUserStats :: "Upstream \<Rightarrow> string \<Rightarrow> State \<Rightarrow> (Stats \<times> State) option" where
  "lookupUserStats up walletAddress st =
     (let now = dateNow up (clockReads st);
          st0 = st\<lparr>clockReads := clockReads st + 1\<rparr>
      in case Map_get (userStatsCache st0) walletAddress of
           None \<Rightarrow> refreshUserStats up walletAddress now st0
         | Some cachedStats \<Rightarrow>
             if now - timestamp cachedStats < USER_CACHE_TTL_MS then
               Some (\<lparr>uniqueMarkets = uniqueMarkets cachedStats,
                      totalTrades = totalTrades cachedStats\<rparr>, st0)
             else refreshUserStats up walletAddress now st0)"

text \<open>
  The market lookup, made only for a wallet that passed the freshness test:
  \<^verbatim>\<open>
  if (!marketCache.has(trade.market)) {
      market = await fetchMarketDetails(trade.market);
      marketCache.set(trade.market, market);
  } else {
      market = marketCache.get(trade.market) || null;
  }
  \<close>
\<close>

definition lookupMarket :: "Upstream \<Rightarrow> string \<Rightarrow> State \<Rightarrow> (Market option \<times> State) option" where
  "lookupMarket up cid st =
     (if \<not> Map_has (marketCache st) cid then
        (case fetchMarketDetails up cid st of
           None \<Rightarrow> None
         | Some (m, st1) \<Rightarrow> Some (m, st1\<lparr>marketCache := Map_set cid m (marketCache st1)\<rparr>))
      else Some (case Map_get (marketCache st) cid of None \<Rightarrow> None | Some m \<Rightarrow> m, st))"

text \<open>
  The alert level and the reason clauses:
  \<^verbatim>\<open>
  let alertLevel: "HIGH" | "MEDIUM" | "LOW" = "MEDIUM";
  const valueUsd = trade.valueUsd || 0;
  const reasons: string[] = [
      `Fresh Wallet (${userStats.uniqueMarkets} lifetime market${userStats.uniqueMarkets === 1 ? "" : "s"})`,
      `Taker BUY (aggressive)`,
  ];
  if (userStats.uniqueMarkets <= 2 && valueUsd >= 5000) {
      alertLevel = "HIGH";
      reasons.push(`Large Position ($${valueUsd.toLocaleString()})`);
  }
  else if (userStats.uniqueMarkets <= 1) {
      alertLevel = "HIGH";
      reasons.push(`Brand New Wallet`);
  }
  else if (userStats.uniqueMarkets <= 3) { alertLevel = "MEDIUM"; }
  else { alertLevel = "LOW"; }
  const reason = reasons.join(" | ");
  \<close>
\<close>

definition valueOr0 :: "Trade \<Rightarrow> jsnum" where
  "valueOr0 tr = (case valueUsd tr of None \<Rightarrow> Num 0 | Some v \<Rightarrow> js_or0 v)"

definition freshWalletText :: "nat \<Rightarrow> string" where
  "freshWalletText n =
     ''Fresh Wallet ('' @ decimal n @ '' lifetime market'' @ (if n = 1 then [] else ''s'') @ '')''"

definition classify :: "Upstream \<Rightarrow> nat \<Rightarrow> jsnum \<Rightarrow> AlertLevel \<times> string list" where
  "classify up markets v =
     (if markets \<le> 2 \<and> js_ge_int v 5000 then
        (HIGH, [freshWalletText markets, ''Taker BUY (aggressive)'',
                ''Large Position ($'' @ toLocaleString up v @ '')''])
      else if markets \<le> 1 then
        (HIGH, [freshWalletText markets, ''Taker BUY (aggressive)'', ''Brand New Wallet''])
      else if markets \<le> 3 then
        (MEDIUM, [freshWalletText markets, ''Taker BUY (aggressive)''])
      else
        (LOW, [freshWalletText markets, ''Taker BUY (aggressive)'']))"

text \<open>
  \<open>analyzeTrade\<close>: no wallet, no result; otherwise the wallet's statistics are looked up,
  and a wallet with at most \<open>MAX_UNIQUE_MARKETS\<close> markets yields a \<open>SuspectTrade\<close>.
\<close>

definition analyzeTrade ::
  "Upstream \<Rightarrow> Config \<Rightarrow> Trade \<Rightarrow> State \<Rightarrow> (SuspectTrade option \<times> State) option" where
  "analyzeTrade up cfg tr st =
     (if owner tr = [] then Some (None, st)
      else
        (case lookupUserStats up (owner tr) st of
           None \<Rightarrow> None
         | Some (stats, st1) \<Rightarrow>
             if int (uniqueMarkets stats) \<le> MAX_UNIQUE_MARKETS cfg then
               (case lookupMarket up (market_t tr) st1 of
                  None \<Rightarrow> None
                | Some (mkt, st2) \<Rightarrow>
                    Some (Some \<lparr>trade = tr,
                                userStats = \<lparr>address = owner tr,
                                             uniqueMarkets_u = uniqueMarkets stats,
                                             totalTrades_u = totalTrades stats,
                                             activities = []\<rparr>,
                                market = mkt,
                                reason = join '' | ''
                                  (snd (classify up (uniqueMarkets stats) (valueOr0 tr))),
                                alertLevel = fst (classify up (uniqueMarkets stats) (valueOr0 tr))\<rparr>,
                          st2))
             else Some (None, st1)))"

section \<open>main.ts: the poll cycle\<close>

text \<open>
  The loop over the aggressive trades, in feed order:
  \<^verbatim>\<open>
  for (const trade of aggressiveTrades) {
      const suspect = await analyzeTrade(trade);
      if (suspect) { suspects.push(suspect); }
  }
  \<close>
\<close>

fun analyzeAll ::
  "Upstream \<Rightarrow> Config \<Rightarrow> Trade list \<Rightarrow> State \<Rightarrow> (SuspectTrade list \<times> State) option" where
  "analyzeAll up cfg [] st = Some ([], st)"
| "analyzeAll up cfg (tr # rest) st =
     (case analyzeTrade up cfg tr st of
        None \<Rightarrow> None
      | Some (suspect, st1) \<Rightarrow>
          (case analyzeAll up cfg rest st1 of
             None \<Rightarrow> None
           | Some (found, st2) \<Rightarrow>
               Some (case suspect of None \<Rightarrow> found | Some s \<Rightarrow> s # found, st2)))"

text \<open>
  The dedup step:
  \<^verbatim>\<open>
  const newTrades = trades.filter((trade) => !processedTradeIds.has(trade.id));
  for (const trade of newTrades) { processedTradeIds.add(trade.id); }
  if (processedTradeIds.size > 10000) {
      const toRemove = Array.from(processedTradeIds).slice(0, 5000);
      for (const id of toRemove) { processedTradeIds.delete(id); }
  }
  \<close>
\<close>

definition addProcessed :: "Trade list \<Rightarrow> string list \<Rightarrow> string list" where
  "addProcessed new ids = fold (\<lambda>tr s. Set_add (id_t tr) s) new ids"

definition toRemove :: "string list \<Rightarrow> string list" where
  "toRemove ids = (if 10000 < length ids then slice_list ids 0 5000 else [])"

definition evictProcessed :: "string list \<Rightarrow> string list" where
  "evictProcessed ids = fold Set_delete (toRemove ids) ids"

text \<open>
  \<open>alertSuspect\<close> prints the alert to the console and then, when a webhook is
  configured, builds the Discord embed; \<open>new Date(trade.match_time).toISOString()\<close>
  there is outside the \<open>try\<close> of \<open>sendDiscordAlert\<close> and throws on an invalid date. The
  exception ends the loop over the suspects (it is caught at the end of \<open>pollTrades\<close>),
  after the console alert of that suspect.
\<close>

definition alertSuspect_throws :: "Upstream \<Rightarrow> Config \<Rightarrow> SuspectTrade \<Rightarrow> bool" where
  "alertSuspect_throws up cfg s =
     (DISCORD_WEBHOOK_URL cfg \<noteq> [] \<and> \<not> validDate up (match_time (trade s)))"

fun alertAll :: "Upstream \<Rightarrow> Config \<Rightarrow> SuspectTrade list \<Rightarrow> SuspectTrade list" where
  "alertAll up cfg [] = []"
| "alertAll up cfg (s # rest) =
     s # (if alertSuspect_throws up cfg s then [] else alertAll up cfg rest)"

text \<open>
  What one cycle did: the batch fetched, the new trades, the identifiers evicted from the
  processed set, the two filter stages, the suspects found and the alerts printed.
\<close>

record PollReport =
  fetched :: "Trade list"
  newTrades :: "Trade list"
  evicted :: "string list"
  largeTrades :: "Trade list"
  aggressiveTrades :: "Trade list"
  suspects :: "SuspectTrade list"
  alerted :: "SuspectTrade list"

definition withValue :: "Trade \<Rightarrow> Trade" where
  "withValue tr = tr\<lparr>valueUsd := Some (calculateTradeValue tr)\<rparr>"

definition isLarge :: "Config \<Rightarrow> Trade \<Rightarrow> bool" where
  "isLarge cfg tr =
     (case valueUsd tr of None \<Rightarrow> False | Some v \<Rightarrow> js_ge_int v (MIN_TRADE_SIZE_USD cfg))"

definition isAggressive :: "Trade \<Rightarrow> bool" where
  "isAggressive tr = (side_t tr = BUY \<and> owner tr \<noteq> [])"

definition isNew :: "string list \<Rightarrow> Trade \<Rightarrow> bool" where
  "isNew ids tr = (\<not> Set_has ids (id_t tr))"

definition pollTrades :: "Upstream \<Rightarrow> Config \<Rightarrow> State \<Rightarrow> (PollReport \<times> State) option" where
  "pollTrades up cfg st =
     (case fetchRecentTrades up 100 (st\<lparr>pollCount := pollCount st + 1\<rparr>) of
        None \<Rightarrow> None
      | Some (batch, st1) \<Rightarrow>
          (let new = filter (isNew (processedTradeIds st1)) batch;
               ids = addProcessed new (processedTradeIds st1);
               large = filter (isLarge cfg) (map withValue new);
               aggressive = filter isAggressive large
           in case analyzeAll up cfg aggressive (st1\<lparr>processedTradeIds := evictProcessed ids\<rparr>) of
                None \<Rightarrow> None
              | Some (found, st2) \<Rightarrow>
                  Some (\<lparr>fetched = batch, newTrades = new, evicted = toRemove ids,
                         largeTrades = large, aggressiveTrades = aggressive,
                         suspects = found, alerted = alertAll up cfg found\<rparr>, st2)))"

text \<open>\<open>main\<close> runs one cycle after another; \<open>runCycles n\<close> is the first \<open>n\<close> of them.\<close>

fun runCycles ::
  "Upstream \<Rightarrow> Config \<Rightarrow> nat \<Rightarrow> State \<Rightarrow> (PollReport list \<times> State) option" where
  "runCycles up cfg 0 st = Some ([], st)"
| "runCycles up cfg (Suc n) st =
     (case pollTrades up cfg st of
        None \<Rightarrow> None
      | Some (report, st1) \<Rightarrow>
          (case runCycles up cfg n st1 of
             None \<Rightarrow> None
           | Some (reports, st2) \<Rightarrow> Some (report # reports, st2)))"

text \<open>
  The wallet cache of a running process: each key once, at most 1000 entries after a
  lookup, and no empty key (\<open>analyzeTrade\<close> returns before the lookup when the trade has
  no wallet).
\<close>

definition cacheInv :: "(string \<times> CachedStats) list \<Rightarrow> bool" where
  "cacheInv cache =
     (distinct (map fst cache) \<and> length cache \<le> 1000 \<and> [] \<notin> fst ` set cache)"

text \<open>
  Wallet lookups made one after the other, as the analysis loop makes them for the
  trades of a batch; the statistics are dropped, the state is kept.
\<close>

fun lookupSeq :: "Upstream \<Rightarrow> string list \<Rightarrow> State \<Rightarrow> State option" where
  "lookupSeq up [] st = Some st"
| "lookupSeq up (v # vs) st =
     (case lookupUserStats up v st of
        None \<Rightarrow> None
      | Some (_, st1) \<Rightarrow> lookupSeq up vs st1)"

text \<open>The identifiers of the trades a cycle reported as new, and of those it alerted on.\<close>

definition newIds :: "PollReport \<Rightarrow> string list" where
  "newIds rep = map id_t (newTrades rep)"

definition alertIds :: "PollReport \<Rightarrow> string list" where
  "alertIds rep = map (\<lambda>s. id_t (trade s)) (alerted rep)"

text \<open>An upstream that never answers with status 429.\<close>

definition neverThrottled :: "Upstream \<Rightarrow> bool" where
  "neverThrottled up =
     (\<forall>n w. tradesResponse up n \<noteq> Rejected429
          \<and> activityResponse up n w \<noteq> Rejected429
          \<and> marketsResponse up n w \<noteq> Rejected429)"

section \<open>Sample inputs\<close>

text \<open>
  Concrete trades, upstream behaviours and states at which the theorems below are
  evaluated.
\<close>

definition sampleTrade :: Trade where
  "sampleTrade =
     \<lparr>id_t = ''trade-1'', taker_order_id = ''order-1'', market_t = ''0xmarket1'',
      asset_id_t = ''asset-1'', side_t = BUY, size_t = ''12000'', fee_rate_bps = ''0'',
      price_t = ''0.5'', status = ''MATCHED'', match_time = ''2025-01-01T00:00:00Z'',
      last_update = ''2025-01-01T00:00:00Z'', outcome = ''Yes'', bucket_index = 0,
      owner = ''0x31a2b4c5d6e7f8'', maker_address = ''0xmaker'',
      transaction_hash_t = ''0xhash'', type_t = ''TRADE'', valueUsd = None\<rparr>"

definition tradeWorth :: "rat \<Rightarrow> Trade" where
  "tradeWorth v = sampleTrade\<lparr>valueUsd := Some (Num v)\<rparr>"

definition sampleActivity :: "string \<Rightarrow> UserActivity" where
  "sampleActivity m =
     \<lparr>id_a = ''activity'', user = ''0x31a2b4c5d6e7f8'', market_a = m, asset_id_a = ''asset-0'',
      type_a = ''trade'', side_a = Some BUY, size_a = Some ''10'', price_a = Some ''0.5'',
      timestamp_a = ''2024-12-31T00:00:00Z'', transaction_hash_a = ''0xhash0''\<rparr>"

definition quietUpstream :: Upstream where
  "quietUpstream =
     \<lparr>tradesResponse = (\<lambda>n. Resolved []),
      activityResponse = (\<lambda>n w. Resolved []),
      marketsResponse = (\<lambda>n c. Resolved []),
      dateNow = (\<lambda>n. 1000),
      toLocaleString = (\<lambda>v. ''6,000''),
      validDate = (\<lambda>s. True)\<rparr>"

definition cachedState :: "nat \<Rightarrow> State" where
  "cachedState k =
     initialState\<lparr>userStatsCache :=
                    [(''0x31a2b4c5d6e7f8'', \<lparr>uniqueMarkets = k, totalTrades = k, timestamp = 0\<rparr>)],
                  marketCache := [(''0xmarket1'', None)]\<rparr>"

definition feedOf :: "Trade list \<Rightarrow> UserActivity list \<Rightarrow> Upstream" where
  "feedOf batch acts =
     \<lparr>tradesResponse = (\<lambda>n. Resolved batch),
      activityResponse = (\<lambda>n w. Resolved acts),
      marketsResponse = (\<lambda>n c. Resolved []),
      dateNow = (\<lambda>n. 1000),
      toLocaleString = (\<lambda>v. ''6,000''),
      validDate = (\<lambda>s. True)\<rparr>"

definition failingUpstream :: Upstream where
  "failingUpstream =
     (feedOf [] [])\<lparr>activityResponse := (\<lambda>k w. if k < 2 then Rejected429 else RejectedOther)\<rparr>"

text \<open>Ten thousand identifiers already processed, oldest first.\<close>

definition manyIds :: "string list" where
  "manyIds = map (\<lambda>n. replicate (Suc n) CHR ''x'') [0..<10000]"

definition fullState :: State where
  "fullState = initialState\<lparr>processedTradeIds := manyIds\<rparr>"

text \<open>
  A wallet cache with 1000 entries whose oldest key is the sample wallet, its entry stale
  at time 100000, and an upstream whose activity answer depends on the request: the
  request numbered 0 sees one market, every later one two.
\<close>

definition otherEntries :: "(string \<times> CachedStats) list" where
  "otherEntries =
     map (\<lambda>n. (replicate (Suc n) CHR ''x'', \<lparr>uniqueMarkets = 9, totalTrades = 9, timestamp = 0\<rparr>))
       [0..<999]"

definition crowdedState :: State where
  "crowdedState =
     initialState\<lparr>userStatsCache :=
       (''0x31a2b4c5d6e7f8'', \<lparr>uniqueMarkets = 7, totalTrades = 7, timestamp = 0\<rparr>) # otherEntries\<rparr>"

definition changingUpstream :: Upstream where
  "changingUpstream =
     \<lparr>tradesResponse = (\<lambda>n. Resolved []),
      activityResponse = (\<lambda>n w. if n = 0 then Resolved [sampleActivity ''0xmarket0'']
                               else Resolved [sampleActivity ''0xmarket0'', sampleActivity ''0xmarket2'']),
      marketsResponse = (\<lambda>n c. Resolved []),
      dateNow = (\<lambda>n. 100000),
      toLocaleString = (\<lambda>v. ''6,000''),
      validDate = (\<lambda>s. True)\<rparr>"

text \<open>An upstream that throttles the first activity request and answers every later one.\<close>

definition slowUpstream :: Upstream where
  "slowUpstream =
     (feedOf [] [sampleActivity ''0xmarket0''])
       \<lparr>activityResponse := (\<lambda>k w. if k = 0 then Rejected429
                                    else Resolved [sampleActivity ''0xmarket0''])\<rparr>"

section \<open>Properties\<close>

subsection \<open>Address masking\<close>

lemma slice_prefix: "n \<le> length s \<Longrightarrow> slice s 0 (Some (int n)) = take n s"
  by (simp add: slice_def Let_def min_def)

lemma slice_suffix: "0 < n \<Longrightarrow> slice s (- int n) None = drop (length s - n) s"
  by (auto simp: slice_def Let_def max_def nat_diff_distrib')

lemma maskAddress_long:
  "10 \<le> length a \<Longrightarrow> maskAddress a = take 5 a @ ''...'' @ drop (length a - 3) a"
  using slice_prefix [of 5 a] slice_suffix [of 3 a]
  by (auto simp: maskAddress_def)

lemma maskAddress_short: "length a < 10 \<Longrightarrow> maskAddress a = a"
  by (simp add: maskAddress_def)

lemma maskAddress_length: "10 \<le> length a \<Longrightarrow> length (maskAddress a) = 11"
  by (simp add: maskAddress_long)

text \<open>
  C9. Masking is idempotent: a string shorter than ten characters is returned as it is,
  and masking a masked address returns it unchanged. For an address of at least ten
  characters the output is its first five characters, three dots and its last three
  characters, eleven characters in all.
\<close>

theorem maskAddress_idempotent_and_shape:
  "maskAddress (maskAddress a) = maskAddress a
   \<and> (length a < 10 \<longrightarrow> maskAddress a = a)
   \<and> (10 \<le> length a \<longrightarrow>
        maskAddress a = take 5 a @ ''...'' @ drop (length a - 3) a
        \<and> take 5 (maskAddress a) = take 5 a
        \<and> drop (length (maskAddress a) - 3) (maskAddress a) = drop (length a - 3) a
        \<and> length (maskAddress a) = 11)"
proof (cases "length a < 10")
  case True
  then show ?thesis by (simp add: maskAddress_short)
next
  case False
  then have long: "10 \<le> length a" by simp
  let ?m = "maskAddress a"
  have m: "?m = take 5 a @ ''...'' @ drop (length a - 3) a"
    using long by (rule maskAddress_long)
  have len: "length ?m = 11" using long by (rule maskAddress_length)
  have pre: "take 5 ?m = take 5 a" using long by (simp add: m)
  have suf: "drop (length ?m - 3) ?m = drop (length a - 3) a"
    using long by (simp add: len) (simp add: m)
  have "maskAddress ?m = take 5 ?m @ ''...'' @ drop (length ?m - 3) ?m"
    by (rule maskAddress_long) (simp add: len)
  then have "maskAddress ?m = ?m" using pre suf m by simp
  then show ?thesis using long m pre suf len by simp
qed

theorem maskAddress_idempotent_and_shape_witness:
  "maskAddress (maskAddress ''0x31a2b4c5d6e7f8'') = maskAddress ''0x31a2b4c5d6e7f8''
   \<and> maskAddress ''0x31a2b4c5d6e7f8'' = ''0x31a...7f8''
   \<and> maskAddress ''0x31a'' = ''0x31a''"
  using maskAddress_idempotent_and_shape [of "''0x31a2b4c5d6e7f8''"]
        maskAddress_idempotent_and_shape [of "''0x31a''"]
  by (simp add: maskAddress_def slice_def)

subsection \<open>Wallet statistics\<close>

lemma Set_add_distinct: "distinct s \<Longrightarrow> distinct (Set_add x s)"
  by (simp add: Set_add_def Set_has_def)

lemma Set_add_set: "set (Set_add x s) = insert x (set s)"
  by (auto simp: Set_add_def Set_has_def)

lemma calculateUserStats_loop_spec:
  "distinct um \<Longrightarrow>
   calculateUserStats_loop acts (um, tt) = (um', tt') \<Longrightarrow>
   distinct um'
   \<and> set um' = set um \<union> market_a ` set (filter qualifies acts)
   \<and> tt' = tt + length (filter qualifies acts)"
proof (induction acts arbitrary: um tt)
  case Nil
  then show ?case by simp
next
  case (Cons activity rest)
  show ?case
  proof (cases "qualifies activity")
    case True
    then have step: "calculateUserStats_loop rest (Set_add (market_a activity) um, tt + 1) = (um', tt')"
      using Cons.prems(2) by (simp add: qualifies_def)
    from Cons.IH [OF Set_add_distinct [OF Cons.prems(1)] step] True
    show ?thesis by (auto simp: Set_add_set)
  next
    case False
    then have step: "calculateUserStats_loop rest (um, tt) = (um', tt')"
      using Cons.prems(2) by (simp add: qualifies_def)
    from Cons.IH [OF Cons.prems(1) step] False
    show ?thesis by auto
  qed
qed

lemma calculateUserStats_spec:
  "uniqueMarkets (calculateUserStats w acts) = card (market_a ` set (filter qualifies acts))
   \<and> totalTrades (calculateUserStats w acts) = length (filter qualifies acts)"
proof -
  obtain um tt where r: "calculateUserStats_loop acts ([], 0) = (um, tt)"
    by (cases "calculateUserStats_loop acts ([], 0)")
  from calculateUserStats_loop_spec [OF _ r]
  have d: "distinct um" and s: "set um = market_a ` set (filter qualifies acts)"
    and t: "tt = length (filter qualifies acts)" by simp_all
  from d have "length um = card (set um)" by (simp add: distinct_card)
  then show ?thesis using s t r by (simp add: calculateUserStats_def)
qed

text \<open>
  C10. For every list of activity records the computed statistics satisfy
  \<open>uniqueMarkets \<le> totalTrades\<close>; \<open>totalTrades\<close> is the number of qualifying records
  (type \<open>"trade"\<close>, or carrying a side) and \<open>uniqueMarkets\<close> the number of distinct markets
  among them, so no other record is counted.
\<close>

theorem calculateUserStats_markets_le_trades:
  "uniqueMarkets (calculateUserStats w acts) \<le> totalTrades (calculateUserStats w acts)
   \<and> totalTrades (calculateUserStats w acts) = length (filter qualifies acts)
   \<and> uniqueMarkets (calculateUserStats w acts) = card (market_a ` set (filter qualifies acts))"
proof -
  have "card (market_a ` set (filter qualifies acts)) \<le> card (set (filter qualifies acts))"
    by (rule card_image_le) simp
  also have "\<dots> \<le> length (filter qualifies acts)" by (rule card_length)
  finally show ?thesis by (simp add: calculateUserStats_spec)
qed

subsection \<open>Evaluating numbers\<close>

lemma bitlen_numeral: "bitlen (numeral k) = bitlen (numeral k div 2) + 1"
  by (subst compute_bitlen) simp

lemma bitlen_1: "bitlen 1 = 1"
  by (subst compute_bitlen) simp

lemma floor_rat_numeral: "\<lfloor>numeral a / numeral b :: rat\<rfloor> = numeral a div numeral b"
  using floor_divide_of_int_eq [of "numeral a" "numeral b", where ?'a = rat] by simp

lemma floor_rat_one_numeral: "\<lfloor>1 / numeral b :: rat\<rfloor> = 1 div numeral b"
  using floor_divide_of_int_eq [of 1 "numeral b", where ?'a = rat] by simp

lemma ceiling_rat_numeral: "\<lceil>numeral a / numeral b :: rat\<rceil> = - (- numeral a div numeral b)"
  using floor_divide_of_int_eq [of "- numeral a" "numeral b", where ?'a = rat]
  by (simp add: ceiling_def)

lemma ceiling_rat_one_numeral: "\<lceil>1 / numeral b :: rat\<rceil> = - (- 1 div numeral b)"
  using floor_divide_of_int_eq [of "- 1" "numeral b", where ?'a = rat]
  by (simp add: ceiling_def)

lemmas binary64_eval = binary64_def binary64_at_def binary64_pack_def floorlog2_def pow2_def
  roundHalfEven_def roundTie_def
  bitlen_numeral bitlen_1 floor_rat_numeral floor_rat_one_numeral ceiling_rat_numeral
  ceiling_rat_one_numeral

lemmas parseFloat_eval = parseFloat_def scanStrDecimalLiteral_def scanUnsignedDecimal_def
  scanMantissa_def scanExponent_def scanDigitsOr_def decimalValue_def digitsValue_def
  digitValue_def isDigit_def isWhiteSpace_def pow10_def

lemma calculateTradeValue_sampleTrade: "calculateTradeValue sampleTrade = Num 6000"
  by (simp add: calculateTradeValue_def sampleTrade_def parseFloat_eval binary64_eval)

subsection \<open>Retry with backoff\<close>

lemma backOff_pow_requests: "requests ((backOff ^^ n) st) = requests st + n"
  by (induction n) (simp_all add: backOff_def)

lemma min_double_cap: "min (min (b * 2 ^ k) m * 2) m = min (b * 2 ^ Suc k) (m::nat)"
  by (simp add: min_def)

lemma backOff_pow_currentBackoff:
  "currentBackoff st \<le> MAX_BACKOFF_MS \<Longrightarrow>
   currentBackoff ((backOff ^^ n) st) = min (currentBackoff st * 2 ^ n) MAX_BACKOFF_MS"
proof (induction n)
  case 0
  then show ?case by simp
next
  case (Suc n)
  then show ?case
    using min_double_cap [of "currentBackoff st" n MAX_BACKOFF_MS]
    by (simp add: backOff_def BACKOFF_MULTIPLIER_def)
qed

lemma backOff_sleeps: "sleeps (backOff st) = sleeps st @ [currentBackoff st]"
  by (simp add: backOff_def)

lemma backOff_pow_sleeps:
  "currentBackoff st \<le> MAX_BACKOFF_MS \<Longrightarrow>
   sleeps ((backOff ^^ n) st) =
     sleeps st @ map (\<lambda>k. min (currentBackoff st * 2 ^ k) MAX_BACKOFF_MS) [0..<n]"
proof (induction n)
  case 0
  then show ?case by simp
next
  case (Suc n)
  then show ?case
    by (simp add: backOff_sleeps backOff_pow_currentBackoff)
qed

lemma backOff_pow_other:
  "processedTradeIds ((backOff ^^ n) st) = processedTradeIds st
   \<and> userStatsCache ((backOff ^^ n) st) = userStatsCache st
   \<and> marketCache ((backOff ^^ n) st) = marketCache st
   \<and> pollCount ((backOff ^^ n) st) = pollCount st
   \<and> fetchLog ((backOff ^^ n) st) = fetchLog st
   \<and> clockReads ((backOff ^^ n) st) = clockReads st"
  by (induction n) (simp_all add: backOff_def)

lemma withRetry_throttled:
  "(\<forall>i<n. fn (requests st + i) = Rejected429) \<Longrightarrow>
   withRetry fn st = withRetry fn ((backOff ^^ n) st)"
proof (induction n arbitrary: st)
  case 0
  then show ?case by simp
next
  case (Suc n)
  have first: "fn (requests st) = Rejected429" using Suc.prems by force
  have rest: "\<forall>i<n. fn (requests (backOff st) + i) = Rejected429"
  proof (intro allI impI)
    fix i assume "i < n"
    then have "fn (requests st + Suc i) = Rejected429"
      using Suc.prems [rule_format, of "Suc i"] by simp
    then show "fn (requests (backOff st) + i) = Rejected429" by (simp add: backOff_def)
  qed
  have "withRetry fn st = withRetry fn (backOff st)"
    by (subst withRetry.simps) (simp add: first)
  also have "\<dots> = withRetry fn ((backOff ^^ n) (backOff st))"
    by (rule Suc.IH [OF rest])
  finally show ?case by (simp add: funpow_swap1)
qed

lemma withRetry_resolved:
  assumes "\<forall>i<n. fn (requests st + i) = Rejected429"
    and "fn (requests st + n) = Resolved r"
  shows "withRetry fn st =
           Some (Some r, ((backOff ^^ n) st)\<lparr>requests := requests st + n + 1,
                                             currentBackoff := INITIAL_BACKOFF_MS\<rparr>)"
  by (subst withRetry_throttled [OF assms(1)], subst withRetry.simps)
     (simp add: backOff_pow_requests assms(2))

lemma withRetry_failed:
  assumes "\<forall>i<n. fn (requests st + i) = Rejected429"
    and "fn (requests st + n) = RejectedOther"
  shows "withRetry fn st =
           Some (None, ((backOff ^^ n) st)\<lparr>requests := requests st + n + 1\<rparr>)"
  by (subst withRetry_throttled [OF assms(1)], subst withRetry.simps)
     (simp add: backOff_pow_requests assms(2))

lemma withRetry_returns_unthrottled:
  "withRetry fn st = Some y \<Longrightarrow> \<exists>i. fn (requests st + i) \<noteq> Rejected429"
proof (induction fn st y rule: withRetry.raw_induct [rotated 1, consumes 1])
  case (1 w fn st y)
  show ?case
  proof (cases "fn (requests st)")
    case Rejected429
    with 1(2) have "w fn (backOff st) = Some y" by simp
    from 1(1) [OF this] obtain i where "fn (requests (backOff st) + i) \<noteq> Rejected429" ..
    then have "fn (requests st + Suc i) \<noteq> Rejected429" by (simp add: backOff_def)
    then show ?thesis ..
  next
    case (Resolved r)
    then have "fn (requests st + 0) \<noteq> Rejected429" by simp
    then show ?thesis ..
  next
    case RejectedOther
    then have "fn (requests st + 0) \<noteq> Rejected429" by simp
    then show ?thesis ..
  qed
qed

lemma withRetry_never:
  "(\<forall>i. fn (requests st + i) = Rejected429) \<Longrightarrow> withRetry fn st = None"
  using withRetry_returns_unthrottled [of fn st] by (cases "withRetry fn st") auto

lemma withRetry_sameMain:
  "withRetry fn st = Some y \<Longrightarrow> sameMain st (snd y)"
proof (induction fn st y rule: withRetry.raw_induct [rotated 1, consumes 1])
  case (1 w fn st y)
  show ?case
  proof (cases "fn (requests st)")
    case Rejected429
    with 1(2) have "w fn (backOff st) = Some y" by simp
    from 1(1) [OF this] show ?thesis by (simp add: sameMain_def backOff_def)
  next
    case (Resolved r)
    with 1(2) show ?thesis by (auto simp: sameMain_def)
  next
    case RejectedOther
    with 1(2) show ?thesis by (auto simp: sameMain_def)
  qed
qed

text \<open>
  C4. From the floor (the initial state, or the state after a success), \<open>n\<close> throttled
  attempts followed by a success sleep \<open>min (1000 * 2^k) 60000\<close> before retry \<open>k\<close>, for
  \<open>k = 0, \<dots>, n - 1\<close>: 1000, 2000, \<dots>, 32000, then 60000 for every later retry. The
  call returns the payload and leaves the delay at the floor, so the retries of the next
  call follow the same schedule from 1000.
\<close>

theorem withRetry_backoff_schedule:
  assumes floor: "currentBackoff st = INITIAL_BACKOFF_MS"
    and throttled: "\<forall>i<n. fn (requests st + i) = Rejected429"
    and success: "fn (requests st + n) = Resolved r"
  shows "\<exists>st'. withRetry fn st = Some (Some r, st')
           \<and> sleeps st' = sleeps st @ map (\<lambda>k. min (INITIAL_BACKOFF_MS * 2 ^ k) MAX_BACKOFF_MS) [0..<n]
           \<and> currentBackoff st' = INITIAL_BACKOFF_MS
           \<and> requests st' = requests st + n + 1
           \<and> (\<forall>k. 6 \<le> k \<longrightarrow> min (INITIAL_BACKOFF_MS * 2 ^ k) MAX_BACKOFF_MS = MAX_BACKOFF_MS)
           \<and> (\<forall>fn' m r'. (\<forall>i<m. fn' (requests st' + i) = Rejected429)
                  \<and> fn' (requests st' + m) = Resolved r' \<longrightarrow>
                (\<exists>st''. withRetry fn' st' = Some (Some r', st'')
                   \<and> sleeps st'' = sleeps st'
                        @ map (\<lambda>k. min (INITIAL_BACKOFF_MS * 2 ^ k) MAX_BACKOFF_MS) [0..<m]))"
proof -
  have cap: "\<And>s. currentBackoff s = INITIAL_BACKOFF_MS \<Longrightarrow> currentBackoff s \<le> MAX_BACKOFF_MS"
    by (simp add: INITIAL_BACKOFF_MS_def MAX_BACKOFF_MS_def)
  let ?st' = "((backOff ^^ n) st)\<lparr>requests := requests st + n + 1,
                                   currentBackoff := INITIAL_BACKOFF_MS\<rparr>"
  have run: "withRetry fn st = Some (Some r, ?st')"
    by (rule withRetry_resolved [OF throttled success])
  have sl: "sleeps ?st' = sleeps st @ map (\<lambda>k. min (INITIAL_BACKOFF_MS * 2 ^ k) MAX_BACKOFF_MS) [0..<n]"
    using backOff_pow_sleeps [OF cap [OF floor], of n] floor by simp
  have next_call: "\<exists>st''. withRetry fn' ?st' = Some (Some r', st'')
        \<and> sleeps st'' = sleeps ?st' @ map (\<lambda>k. min (INITIAL_BACKOFF_MS * 2 ^ k) MAX_BACKOFF_MS) [0..<m]"
    if t: "\<forall>i<m. fn' (requests ?st' + i) = Rejected429"
      and s: "fn' (requests ?st' + m) = Resolved r'" for fn' m r'
  proof -
    have fl: "currentBackoff ?st' = INITIAL_BACKOFF_MS" by simp
    show ?thesis
      using withRetry_resolved [OF t s] backOff_pow_sleeps [OF cap [OF fl], of m]
      by simp
  qed
  have ceiling: "min (INITIAL_BACKOFF_MS * 2 ^ k) MAX_BACKOFF_MS = MAX_BACKOFF_MS" if "6 \<le> k" for k
  proof -
    have "(2::nat) ^ 6 \<le> 2 ^ k" using that by (intro power_increasing) simp_all
    then show ?thesis by (simp add: INITIAL_BACKOFF_MS_def MAX_BACKOFF_MS_def)
  qed
  show ?thesis
  proof (intro exI [of _ ?st'] conjI)
    show "withRetry fn st = Some (Some r, ?st')" by (rule run)
    show "sleeps ?st' = sleeps st @ map (\<lambda>k. min (INITIAL_BACKOFF_MS * 2 ^ k) MAX_BACKOFF_MS) [0..<n]"
      by (rule sl)
    show "currentBackoff ?st' = INITIAL_BACKOFF_MS" by simp
    show "requests ?st' = requests st + n + 1" by simp
    show "\<forall>k. 6 \<le> k \<longrightarrow> min (INITIAL_BACKOFF_MS * 2 ^ k) MAX_BACKOFF_MS = MAX_BACKOFF_MS"
      by (simp add: ceiling)
    show "\<forall>fn' m r'. (\<forall>i<m. fn' (requests ?st' + i) = Rejected429)
                  \<and> fn' (requests ?st' + m) = Resolved r' \<longrightarrow>
                (\<exists>st''. withRetry fn' ?st' = Some (Some r', st'')
                   \<and> sleeps st'' = sleeps ?st'
                        @ map (\<lambda>k. min (INITIAL_BACKOFF_MS * 2 ^ k) MAX_BACKOFF_MS) [0..<m])"
    proof (intro allI impI, elim conjE)
      fix fn' m r'
      assume "\<forall>i<m. fn' (requests ?st' + i) = Rejected429"
        and "fn' (requests ?st' + m) = Resolved r'"
      then show "\<exists>st''. withRetry fn' ?st' = Some (Some r', st'')
                   \<and> sleeps st'' = sleeps ?st'
                        @ map (\<lambda>k. min (INITIAL_BACKOFF_MS * 2 ^ k) MAX_BACKOFF_MS) [0..<m]"
        by (rule next_call)
    qed
  qed
qed

theorem withRetry_backoff_schedule_witness:
  "\<exists>st'. withRetry (\<lambda>k. if k < 8 then Rejected429 else Resolved True) initialState
            = Some (Some True, st')
         \<and> sleeps st' = [1000, 2000, 4000, 8000, 16000, 32000, 60000, 60000]
         \<and> currentBackoff st' = 1000"
proof -
  let ?fn = "\<lambda>k::nat. if k < 8 then Rejected429 else Resolved True"
  have floor: "currentBackoff initialState = INITIAL_BACKOFF_MS"
    by (simp add: initialState_def)
  have throttled: "\<forall>i<8. ?fn (requests initialState + i) = Rejected429"
    by (simp add: initialState_def)
  have success: "?fn (requests initialState + 8) = Resolved True"
    by (simp add: initialState_def)
  have "\<exists>st'. withRetry ?fn initialState = Some (Some True, st')
          \<and> sleeps st' = sleeps initialState
                @ map (\<lambda>k. min (INITIAL_BACKOFF_MS * 2 ^ k) MAX_BACKOFF_MS) [0..<8]
          \<and> currentBackoff st' = INITIAL_BACKOFF_MS"
    using withRetry_backoff_schedule [OF floor throttled success]
    by (elim exE conjE) (intro exI conjI; assumption)
  then show ?thesis
    by (simp add: initialState_def INITIAL_BACKOFF_MS_def MAX_BACKOFF_MS_def upt_conv_Cons)
qed

subsection \<open>Classification\<close>

lemma lookupUserStats_alt:
  "lookupUserStats up w st =
     (if cacheHit (userStatsCache st) w (dateNow up (clockReads st)) then
        (case Map_get (userStatsCache st) w of
           None \<Rightarrow> None
         | Some c \<Rightarrow>
             Some (\<lparr>uniqueMarkets = uniqueMarkets c, totalTrades = totalTrades c\<rparr>,
                   st\<lparr>clockReads := clockReads st + 1\<rparr>))
      else refreshUserStats up w (dateNow up (clockReads st)) (st\<lparr>clockReads := clockReads st + 1\<rparr>))"
  by (simp add: lookupUserStats_def cacheHit_def Let_def split: option.splits)

text \<open>
  C1. For a trade with a wallet address, whatever the upstream, the state and the other
  fields of the trade: with the default configuration, a wallet with 1 market and a
  value of 10 is HIGH, 2 markets and 5000 is HIGH, 2 markets and 4999 is MEDIUM, 5
  markets and 100000 is LOW, and 6 markets and 100000 gives no alert (\<open>null\<close>). The
  statistics are the ones the wallet lookup returned.
\<close>

theorem analyzeTrade_tiers:
  assumes wallet: "owner tr \<noteq> []"
    and stats: "lookupUserStats up (owner tr) st = Some (stats, st1)"
    and mkt: "lookupMarket up (market_t tr) st1 = Some (mkt, st2)"
  shows "(uniqueMarkets stats = 1 \<and> valueUsd tr = Some (Num 10) \<longrightarrow>
            (\<exists>s. analyzeTrade up defaultConfig tr st = Some (Some s, st2) \<and> alertLevel s = HIGH))
       \<and> (uniqueMarkets stats = 2 \<and> valueUsd tr = Some (Num 5000) \<longrightarrow>
            (\<exists>s. analyzeTrade up defaultConfig tr st = Some (Some s, st2) \<and> alertLevel s = HIGH))
       \<and> (uniqueMarkets stats = 2 \<and> valueUsd tr = Some (Num 4999) \<longrightarrow>
            (\<exists>s. analyzeTrade up defaultConfig tr st = Some (Some s, st2) \<and> alertLevel s = MEDIUM))
       \<and> (uniqueMarkets stats = 5 \<and> valueUsd tr = Some (Num 100000) \<longrightarrow>
            (\<exists>s. analyzeTrade up defaultConfig tr st = Some (Some s, st2) \<and> alertLevel s = LOW))
       \<and> (uniqueMarkets stats = 6 \<and> valueUsd tr = Some (Num 100000) \<longrightarrow>
            analyzeTrade up defaultConfig tr st = Some (None, st1))"
  using wallet stats mkt
  by (simp add: analyzeTrade_def defaultConfig_def classify_def valueOr0_def)

lemma lookupUserStats_cachedState:
  "lookupUserStats quietUpstream ''0x31a2b4c5d6e7f8'' (cachedState k) =
     Some (\<lparr>uniqueMarkets = k, totalTrades = k\<rparr>, (cachedState k)\<lparr>clockReads := 1\<rparr>)"
  by (simp add: lookupUserStats_alt cachedState_def initialState_def quietUpstream_def
      cacheHit_def Map_get_def USER_CACHE_TTL_MS_def Let_def)

lemma lookupMarket_cachedState:
  "lookupMarket quietUpstream ''0xmarket1'' ((cachedState k)\<lparr>clockReads := 1\<rparr>) =
     Some (None, (cachedState k)\<lparr>clockReads := 1\<rparr>)"
  by (simp add: lookupMarket_def cachedState_def initialState_def Map_has_def Map_get_def)

theorem analyzeTrade_tiers_witness:
  "map_option (map_option alertLevel \<circ> fst)
     (analyzeTrade quietUpstream defaultConfig (tradeWorth 10) (cachedState 1)) = Some (Some HIGH)
   \<and> map_option (map_option alertLevel \<circ> fst)
     (analyzeTrade quietUpstream defaultConfig (tradeWorth 5000) (cachedState 2)) = Some (Some HIGH)
   \<and> map_option (map_option alertLevel \<circ> fst)
     (analyzeTrade quietUpstream defaultConfig (tradeWorth 4999) (cachedState 2)) = Some (Some MEDIUM)
   \<and> map_option (map_option alertLevel \<circ> fst)
     (analyzeTrade quietUpstream defaultConfig (tradeWorth 100000) (cachedState 5)) = Some (Some LOW)
   \<and> map_option (map_option alertLevel \<circ> fst)
     (analyzeTrade quietUpstream defaultConfig (tradeWorth 100000) (cachedState 6)) = Some None"
proof -
  have w: "owner (tradeWorth v) \<noteq> []" for v
    by (simp add: tradeWorth_def sampleTrade_def)
  have s: "lookupUserStats quietUpstream (owner (tradeWorth v)) (cachedState k) =
             Some (\<lparr>uniqueMarkets = k, totalTrades = k\<rparr>, (cachedState k)\<lparr>clockReads := 1\<rparr>)" for v k
    using lookupUserStats_cachedState [of k] by (simp add: tradeWorth_def sampleTrade_def)
  have m: "lookupMarket quietUpstream (market_t (tradeWorth v)) ((cachedState k)\<lparr>clockReads := 1\<rparr>) =
             Some (None, (cachedState k)\<lparr>clockReads := 1\<rparr>)" for v k
    using lookupMarket_cachedState [of k] by (simp add: tradeWorth_def sampleTrade_def)
  have v: "valueUsd (tradeWorth v) = Some (Num v)" for v
    by (simp add: tradeWorth_def sampleTrade_def)
  show ?thesis
    using analyzeTrade_tiers [OF w [where v = 10] s [where v = 10 and k = 1] m [where v = 10 and k = 1]]
      analyzeTrade_tiers [OF w [where v = 5000] s [where v = 5000 and k = 2] m [where v = 5000 and k = 2]]
      analyzeTrade_tiers [OF w [where v = 4999] s [where v = 4999 and k = 2] m [where v = 4999 and k = 2]]
      analyzeTrade_tiers [OF w [where v = 100000] s [where v = 100000 and k = 5] m [where v = 100000 and k = 5]]
      analyzeTrade_tiers [OF w [where v = 100000] s [where v = 100000 and k = 6] m [where v = 100000 and k = 6]]
    by (auto simp: v)
qed

subsection \<open>What the fetch and analysis steps leave alone\<close>

lemma fetchRecentTrades_processed:
  "fetchRecentTrades up limit st = Some (batch, st') \<Longrightarrow>
   processedTradeIds st' = processedTradeIds st"
  by (auto simp: fetchRecentTrades_def sameMain_def split: option.splits
      dest!: withRetry_sameMain)

lemma fetchUserActivity_processed:
  "fetchUserActivity up w st = Some (acts, st') \<Longrightarrow>
   processedTradeIds st' = processedTradeIds st"
  by (auto simp: fetchUserActivity_def sameMain_def split: option.splits
      dest!: withRetry_sameMain)

lemma fetchMarketDetails_processed:
  "fetchMarketDetails up c st = Some (m, st') \<Longrightarrow>
   processedTradeIds st' = processedTradeIds st"
  by (auto simp: fetchMarketDetails_def sameMain_def split: option.splits
      dest!: withRetry_sameMain)

lemma lookupUserStats_processed:
  "lookupUserStats up w st = Some (stats, st') \<Longrightarrow>
   processedTradeIds st' = processedTradeIds st"
  by (auto simp: lookupUserStats_alt refreshUserStats_def split: if_splits option.splits
      dest!: fetchUserActivity_processed)

lemma lookupMarket_processed:
  "lookupMarket up c st = Some (m, st') \<Longrightarrow>
   processedTradeIds st' = processedTradeIds st"
  by (auto simp: lookupMarket_def split: if_splits option.splits
      dest!: fetchMarketDetails_processed)

lemma analyzeTrade_processed:
  "analyzeTrade up cfg tr st = Some (r, st') \<Longrightarrow>
   processedTradeIds st' = processedTradeIds st"
  by (auto simp: analyzeTrade_def split: if_splits option.splits
      dest!: lookupUserStats_processed lookupMarket_processed)

lemma analyzeTrade_trade:
  "analyzeTrade up cfg tr st = Some (Some s, st') \<Longrightarrow> trade s = tr"
  by (auto simp: analyzeTrade_def split: if_splits option.splits)

lemma analyzeAll_processed:
  "analyzeAll up cfg trs st = Some (found, st') \<Longrightarrow>
   processedTradeIds st' = processedTradeIds st"
proof (induction trs arbitrary: st found)
  case Nil
  then show ?case by simp
next
  case (Cons tr rest)
  then show ?case
    by (auto split: option.splits dest!: analyzeTrade_processed)
qed

lemma analyzeAll_ids:
  "analyzeAll up cfg trs st = Some (found, st') \<Longrightarrow>
   set (map (\<lambda>s. id_t (trade s)) found) \<subseteq> set (map id_t trs)
   \<and> (distinct (map id_t trs) \<longrightarrow> distinct (map (\<lambda>s. id_t (trade s)) found))"
proof (induction trs arbitrary: st found)
  case Nil
  then show ?case by simp
next
  case (Cons tr rest)
  from Cons.prems obtain r st1 f where
    a: "analyzeTrade up cfg tr st = Some (r, st1)"
    and b: "analyzeAll up cfg rest st1 = Some (f, st')"
    and c: "found = (case r of None \<Rightarrow> f | Some s \<Rightarrow> s # f)"
    by (auto split: option.splits)
  from Cons.IH [OF b] have ih: "set (map (\<lambda>s. id_t (trade s)) f) \<subseteq> set (map id_t rest)"
    "distinct (map id_t rest) \<longrightarrow> distinct (map (\<lambda>s. id_t (trade s)) f)" by simp_all
  show ?case
  proof (cases r)
    case None
    with c ih show ?thesis by auto
  next
    case (Some s)
    with a have "trade s = tr" by (simp add: analyzeTrade_trade)
    with c ih Some show ?thesis by auto
  qed
qed

subsection \<open>The dedup step\<close>

lemma Set_delete_filter: "Set_delete x s = filter (\<lambda>y. y \<noteq> x) s"
  unfolding Set_delete_def by (induction s) auto

lemma fold_Set_delete: "fold Set_delete xs s = filter (\<lambda>x. x \<notin> set xs) s"
proof (induction xs arbitrary: s)
  case Nil
  then show ?case by simp
next
  case (Cons x xs)
  have "fold Set_delete (x # xs) s = fold Set_delete xs (Set_delete x s)" by simp
  also have "\<dots> = filter (\<lambda>y. y \<notin> set xs) (filter (\<lambda>y. y \<noteq> x) s)"
    by (simp only: Cons.IH Set_delete_filter)
  also have "\<dots> = filter (\<lambda>y. y \<notin> set (x # xs)) s"
    by (auto intro: filter_cong)
  finally show ?case .
qed

lemma filter_not_in_take:
  "distinct ids \<Longrightarrow> filter (\<lambda>x. x \<notin> set (take n ids)) ids = drop n ids"
proof -
  assume d: "distinct ids"
  from d have dj: "set (take n ids) \<inter> set (drop n ids) = {}"
    by (metis append_take_drop_id distinct_append)
  have "filter (\<lambda>x. x \<notin> set (take n ids)) ids =
          filter (\<lambda>x. x \<notin> set (take n ids)) (take n ids)
          @ filter (\<lambda>x. x \<notin> set (take n ids)) (drop n ids)"
    by (metis append_take_drop_id filter_append)
  also have "filter (\<lambda>x. x \<notin> set (take n ids)) (take n ids) = []"
    by (simp add: filter_empty_conv)
  also have "filter (\<lambda>x. x \<notin> set (take n ids)) (drop n ids) = drop n ids"
    using dj by (auto simp: filter_id_conv)
  finally show ?thesis by simp
qed

lemma toRemove_take: "10000 < length ids \<Longrightarrow> toRemove ids = take 5000 ids"
  by (simp add: toRemove_def slice_list_def)

lemma evictProcessed_small: "\<not> 10000 < length ids \<Longrightarrow> evictProcessed ids = ids"
  by (simp add: evictProcessed_def toRemove_def)

lemma evictProcessed_drop:
  "distinct ids \<Longrightarrow> 10000 < length ids \<Longrightarrow> evictProcessed ids = drop 5000 ids"
  by (simp add: evictProcessed_def toRemove_take fold_Set_delete filter_not_in_take)

lemma addProcessed_distinct: "distinct ids \<Longrightarrow> distinct (addProcessed new ids)"
  unfolding addProcessed_def
  by (induction new arbitrary: ids) (simp_all add: Set_add_distinct)

lemma addProcessed_set: "set (addProcessed new ids) = set ids \<union> id_t ` set new"
  unfolding addProcessed_def
  by (induction new arbitrary: ids) (auto simp: Set_add_set)

lemma addProcessed_prefix: "\<exists>more. addProcessed new ids = ids @ more"
  unfolding addProcessed_def
proof (induction new arbitrary: ids)
  case Nil
  then show ?case by simp
next
  case (Cons tr new)
  from Cons.IH [of "Set_add (id_t tr) ids"] show ?case
    by (auto simp: Set_add_def)
qed

lemma evictProcessed_distinct: "distinct ids \<Longrightarrow> distinct (evictProcessed ids)"
  by (cases "10000 < length ids") (simp_all add: evictProcessed_drop evictProcessed_small)

lemma pollTrades_dedup:
  assumes "pollTrades up cfg st = Some (rep, st')"
  shows "newTrades rep = filter (isNew (processedTradeIds st)) (fetched rep)
       \<and> evicted rep = toRemove (addProcessed (newTrades rep) (processedTradeIds st))
       \<and> processedTradeIds st' = evictProcessed (addProcessed (newTrades rep) (processedTradeIds st))"
proof -
  from assms obtain batch st1 found where
    f: "fetchRecentTrades up 100 (st\<lparr>pollCount := pollCount st + 1\<rparr>) = Some (batch, st1)"
    and a: "analyzeAll up cfg
              (filter isAggressive (filter (isLarge cfg)
                 (map withValue (filter (isNew (processedTradeIds st1)) batch))))
              (st1\<lparr>processedTradeIds :=
                    evictProcessed (addProcessed (filter (isNew (processedTradeIds st1)) batch)
                                      (processedTradeIds st1))\<rparr>) = Some (found, st')"
    and r: "fetched rep = batch" "newTrades rep = filter (isNew (processedTradeIds st1)) batch"
      "evicted rep = toRemove (addProcessed (filter (isNew (processedTradeIds st1)) batch)
                                      (processedTradeIds st1))"
    by (auto simp: pollTrades_def Let_def split: option.splits)
  from fetchRecentTrades_processed [OF f] have p: "processedTradeIds st1 = processedTradeIds st"
    by simp
  from analyzeAll_processed [OF a] p r show ?thesis by simp
qed

subsection \<open>The wallet cache\<close>

lemma withRetry_returns:
  assumes "\<exists>i. fn (requests st + i) \<noteq> Rejected429"
  shows "\<exists>n r. (\<forall>i<n. fn (requests st + i) = Rejected429)
           \<and> fn (requests st + n) \<noteq> Rejected429
           \<and> withRetry fn st =
               Some (r, ((backOff ^^ n) st)
                          \<lparr>requests := requests st + n + 1,
                           currentBackoff := (case fn (requests st + n) of
                               Resolved _ \<Rightarrow> INITIAL_BACKOFF_MS
                             | _ \<Rightarrow> currentBackoff ((backOff ^^ n) st))\<rparr>)
           \<and> r = (case fn (requests st + n) of Resolved x \<Rightarrow> Some x | _ \<Rightarrow> None)"
proof -
  define n where "n = (LEAST i. fn (requests st + i) \<noteq> Rejected429)"
  have n: "fn (requests st + n) \<noteq> Rejected429"
    unfolding n_def using assms by (rule LeastI_ex)
  have before: "\<forall>i<n. fn (requests st + i) = Rejected429"
    unfolding n_def using not_less_Least by blast
  show ?thesis
  proof (cases "fn (requests st + n)")
    case (Resolved x)
    with withRetry_resolved [OF before Resolved] before n show ?thesis
      by (intro exI [of _ n] exI [of _ "Some x"]) simp
  next
    case Rejected429
    with n show ?thesis by simp
  next
    case RejectedOther
    have "((backOff ^^ n) st)\<lparr>requests := requests st + n + 1\<rparr> =
          ((backOff ^^ n) st)\<lparr>requests := requests st + n + 1,
                               currentBackoff := currentBackoff ((backOff ^^ n) st)\<rparr>"
      by simp
    with withRetry_failed [OF before RejectedOther] before n RejectedOther show ?thesis
      by (intro exI [of _ n] exI [of _ None]) simp
  qed
qed

lemma evictOldest_small: "length c \<le> 1000 \<Longrightarrow> evictOldest c = c"
  by (simp add: evictOldest_def)

lemma evictOldest_full:
  assumes d: "distinct (map fst c)" and e: "[] \<notin> fst ` set c" and l: "length c = 1001"
  shows "evictOldest c = tl c"
proof -
  from l obtain k v rest where c: "c = (k, v) # rest" by (cases c) auto
  with e have k: "k \<noteq> []" by auto
  from d c have "k \<notin> fst ` set rest" by auto
  then have "AList.delete k rest = rest" by simp
  with c k l show ?thesis by (simp add: evictOldest_def Map_delete_def)
qed

lemma Map_set_stored:
  assumes inv: "cacheInv cache" and w: "w \<noteq> []"
  shows "cacheInv (evictOldest (Map_set w e cache))
       \<and> Map_get (evictOldest (Map_set w e cache)) w = Some e"
proof -
  let ?c = "Map_set w e cache"
  from inv have d: "distinct (map fst cache)" and l: "length cache \<le> 1000"
    and ne: "[] \<notin> fst ` set cache" by (simp_all add: cacheInv_def)
  have d': "distinct (map fst ?c)" using d by (simp add: Map_set_def distinct_update)
  have ne': "[] \<notin> fst ` set ?c" using ne w by (simp add: Map_set_def dom_update)
  have get: "map_of ?c w = Some e" by (simp add: Map_set_def update_conv')
  have keys: "map fst ?c = (if w \<in> set (map fst cache) then map fst cache else map fst cache @ [w])"
    by (simp add: Map_set_def update_keys)
  have len: "length ?c = (if w \<in> set (map fst cache) then length cache else length cache + 1)"
    using arg_cong [OF keys, of length] by (simp split: if_splits)
  show ?thesis
  proof (cases "length ?c \<le> 1000")
    case True
    then show ?thesis using d' ne' get
      by (simp add: evictOldest_small cacheInv_def Map_get_def)
  next
    case False
    with len l have new: "w \<notin> set (map fst cache)" and full: "length cache = 1000"
      and l': "length ?c = 1001" by (auto split: if_splits)
    from keys new have k: "map fst ?c = map fst cache @ [w]" by simp
    have ev: "evictOldest ?c = tl ?c" by (rule evictOldest_full [OF d' ne' l'])
    from full obtain p rest where cache: "cache = p # rest" by (cases cache) auto
    from k cache have "map fst (tl ?c) = map fst rest @ [w]"
      by (simp add: map_tl)
    moreover from d cache have "distinct (map fst rest)" by simp
    moreover from new cache have "w \<notin> set (map fst rest)" by simp
    moreover have "set (tl ?c) \<subseteq> set ?c" by (cases ?c) auto
    moreover have "length (tl ?c) = 1000" using l' by simp
    moreover have "map_of (tl ?c) w = Some e"
    proof -
      obtain q where q: "?c = q # tl ?c" using l' by (cases ?c) auto
      with k cache have "fst q = fst p" by (metis list.sel(1) list.simps(9) hd_append2 list.distinct(1) list.map_sel(1))
      with new cache have "fst q \<noteq> w" by auto
      with get q show ?thesis by (metis map_of_Cons_code(2) prod.collapse)
    qed
    ultimately show ?thesis using ne' ev
      by (auto simp: cacheInv_def Map_get_def)
  qed
qed

lemma fetchUserActivity_returns:
  assumes "\<exists>i. activityResponse up (requests st + i) w \<noteq> Rejected429"
  shows "\<exists>n acts st'. (\<forall>i<n. activityResponse up (requests st + i) w = Rejected429)
           \<and> activityResponse up (requests st + n) w \<noteq> Rejected429
           \<and> acts = (case activityResponse up (requests st + n) w of Resolved a \<Rightarrow> a | _ \<Rightarrow> [])
           \<and> fetchUserActivity up w st = Some (acts, st')
           \<and> requests st' = requests st + n + 1
           \<and> sameMain (st\<lparr>fetchLog := fetchLog st @ [FetchActivity w]\<rparr>) st'"
proof -
  let ?st = "st\<lparr>fetchLog := fetchLog st @ [FetchActivity w]\<rparr>"
  let ?fn = "\<lambda>n. activityResponse up n w"
  from assms have "\<exists>i. ?fn (requests ?st + i) \<noteq> Rejected429" by simp
  from withRetry_returns [OF this] obtain n r st' where
    t: "\<forall>i<n. ?fn (requests ?st + i) = Rejected429"
    and u: "?fn (requests ?st + n) \<noteq> Rejected429"
    and run: "withRetry ?fn ?st = Some (r, st')"
    and st': "st' = ((backOff ^^ n) ?st)
                          \<lparr>requests := requests ?st + n + 1,
                           currentBackoff := (case ?fn (requests ?st + n) of
                               Resolved _ \<Rightarrow> INITIAL_BACKOFF_MS
                             | _ \<Rightarrow> currentBackoff ((backOff ^^ n) ?st))\<rparr>"
    and r: "r = (case ?fn (requests ?st + n) of Resolved x \<Rightarrow> Some x | _ \<Rightarrow> None)"
    by blast
  have same: "sameMain ?st st'" using withRetry_sameMain [OF run] by simp
  have req: "requests st' = requests st + n + 1" using st' by simp
  have res: "fetchUserActivity up w st =
      Some (case activityResponse up (requests st + n) w of Resolved a \<Rightarrow> a | _ \<Rightarrow> [], st')"
    using run r by (simp add: fetchUserActivity_def split: response.splits)
  show ?thesis
    using t u res req same by (intro exI [of _ n] exI [of _ st'] exI) simp
qed

lemma lookupUserStats_hit:
  assumes "cacheHit (userStatsCache st) w (dateNow up (clockReads st))"
  shows "\<exists>c. Map_get (userStatsCache st) w = Some c
           \<and> lookupUserStats up w st =
               Some (\<lparr>uniqueMarkets = uniqueMarkets c, totalTrades = totalTrades c\<rparr>,
                     st\<lparr>clockReads := clockReads st + 1\<rparr>)"
  using assms
  by (auto simp: lookupUserStats_alt cacheHit_def split: option.splits)

lemma lookupUserStats_miss:
  assumes inv: "cacheInv (userStatsCache st)" and w: "w \<noteq> []"
    and miss: "\<not> cacheHit (userStatsCache st) w (dateNow up (clockReads st))"
    and responds: "\<exists>i. activityResponse up (requests st + i) w \<noteq> Rejected429"
  shows "\<exists>n acts st1.
           (\<forall>i<n. activityResponse up (requests st + i) w = Rejected429)
         \<and> activityResponse up (requests st + n) w \<noteq> Rejected429
         \<and> acts = (case activityResponse up (requests st + n) w of Resolved a \<Rightarrow> a | _ \<Rightarrow> [])
         \<and> lookupUserStats up w st = Some (calculateUserStats w acts, st1)
         \<and> cacheInv (userStatsCache st1)
         \<and> Map_get (userStatsCache st1) w =
              Some \<lparr>uniqueMarkets = uniqueMarkets (calculateUserStats w acts),
                    totalTrades = totalTrades (calculateUserStats w acts),
                    timestamp = dateNow up (clockReads st)\<rparr>
         \<and> fetchLog st1 = fetchLog st @ [FetchActivity w]
         \<and> requests st1 = requests st + n + 1
         \<and> clockReads st1 = clockReads st + 1
         \<and> marketCache st1 = marketCache st
         \<and> processedTradeIds st1 = processedTradeIds st"
proof -
  let ?st0 = "st\<lparr>clockReads := clockReads st + 1\<rparr>"
  from responds have "\<exists>i. activityResponse up (requests ?st0 + i) w \<noteq> Rejected429" by simp
  from fetchUserActivity_returns [OF this] obtain n acts st' where
    t: "\<forall>i<n. activityResponse up (requests ?st0 + i) w = Rejected429"
    and u: "activityResponse up (requests ?st0 + n) w \<noteq> Rejected429"
    and a: "acts = (case activityResponse up (requests ?st0 + n) w of Resolved a \<Rightarrow> a | _ \<Rightarrow> [])"
    and f: "fetchUserActivity up w ?st0 = Some (acts, st')"
    and req: "requests st' = requests ?st0 + n + 1"
    and same: "sameMain (?st0\<lparr>fetchLog := fetchLog ?st0 @ [FetchActivity w]\<rparr>) st'"
    by blast
  let ?e = "\<lparr>uniqueMarkets = uniqueMarkets (calculateUserStats w acts),
             totalTrades = totalTrades (calculateUserStats w acts),
             timestamp = dateNow up (clockReads st)\<rparr>"
  let ?st1 = "st'\<lparr>userStatsCache := evictOldest (Map_set w ?e (userStatsCache st'))\<rparr>"
  from same have cache: "userStatsCache st' = userStatsCache st"
    and rest: "fetchLog st' = fetchLog st @ [FetchActivity w]" "clockReads st' = clockReads st + 1"
      "marketCache st' = marketCache st" "processedTradeIds st' = processedTradeIds st"
    by (simp_all add: sameMain_def)
  have run: "lookupUserStats up w st = Some (calculateUserStats w acts, ?st1)"
    using miss f by (simp add: lookupUserStats_alt refreshUserStats_def)
  from Map_set_stored [OF inv w, of ?e] cache
  have "cacheInv (userStatsCache ?st1)" "Map_get (userStatsCache ?st1) w = Some ?e"
    by simp_all
  with t u a run req rest show ?thesis
    by (intro exI [of _ n] exI [of _ acts] exI [of _ ?st1]) simp
qed

subsection \<open>A failed activity fetch\<close>

lemma fetchUserActivity_failed:
  assumes "\<forall>i<n. activityResponse up (requests st + i) w = Rejected429"
    and "activityResponse up (requests st + n) w = RejectedOther"
  shows "\<exists>st'. fetchUserActivity up w st = Some ([], st')
           \<and> requests st' = requests st + n + 1
           \<and> sameMain (st\<lparr>fetchLog := fetchLog st @ [FetchActivity w]\<rparr>) st'"
proof -
  let ?st = "st\<lparr>fetchLog := fetchLog st @ [FetchActivity w]\<rparr>"
  let ?fn = "\<lambda>n. activityResponse up n w"
  have t: "\<forall>i<n. ?fn (requests ?st + i) = Rejected429" using assms(1) by simp
  have f: "?fn (requests ?st + n) = RejectedOther" using assms(2) by simp
  note run = withRetry_failed [OF t f]
  from withRetry_sameMain [OF run] run show ?thesis
    by (simp add: fetchUserActivity_def)
qed

lemma lookupMarket_returns:
  assumes "Map_has (marketCache st) c \<or> (\<exists>i. marketsResponse up (requests st + i) c \<noteq> Rejected429)"
  shows "\<exists>m st'. lookupMarket up c st = Some (m, st')"
proof (cases "Map_has (marketCache st) c")
  case True
  then show ?thesis by (simp add: lookupMarket_def)
next
  case False
  let ?st = "st\<lparr>fetchLog := fetchLog st @ [FetchMarket c]\<rparr>"
  let ?fn = "\<lambda>n. map_response firstOrNull (marketsResponse up n c)"
  from False assms obtain i where "marketsResponse up (requests st + i) c \<noteq> Rejected429" by blast
  then have "?fn (requests ?st + i) \<noteq> Rejected429"
    by (cases "marketsResponse up (requests st + i) c") simp_all
  then have "\<exists>i. ?fn (requests ?st + i) \<noteq> Rejected429" ..
  from withRetry_returns [OF this] obtain r st' where "withRetry ?fn ?st = Some (r, st')"
    by blast
  with False show ?thesis by (simp add: lookupMarket_def fetchMarketDetails_def)
qed

lemma calculateUserStats_empty:
  "calculateUserStats w [] = \<lparr>uniqueMarkets = 0, totalTrades = 0\<rparr>"
  by (simp add: calculateUserStats_def)

text \<open>
  C8. When the activity fetch of an uncached (or stale) wallet ends in a failure that is
  not throttling, after any number of throttled attempts, \<open>fetchUserActivity\<close> returns the
  empty list, the statistics are 0 markets and 0 trades, and \<open>analyzeTrade\<close> returns a
  suspect for the trade with those statistics: the wallet passes the freshness test of
  every configuration whose ceiling is not negative. The market lookup that follows has
  to return, from the cache or from a request that is eventually not throttled.
\<close>

theorem failed_activity_fetch_flags:
  assumes wallet: "owner tr \<noteq> []"
    and miss: "\<not> cacheHit (userStatsCache st) (owner tr) (dateNow up (clockReads st))"
    and throttled: "\<forall>i<n. activityResponse up (requests st + i) (owner tr) = Rejected429"
    and failed: "activityResponse up (requests st + n) (owner tr) = RejectedOther"
    and nonneg: "0 \<le> MAX_UNIQUE_MARKETS cfg"
    and mkt: "Map_has (marketCache st) (market_t tr)
              \<or> (\<exists>i. marketsResponse up (requests st + n + 1 + i) (market_t tr) \<noteq> Rejected429)"
  shows "(\<exists>st1. fetchUserActivity up (owner tr) (st\<lparr>clockReads := clockReads st + 1\<rparr>) = Some ([], st1))
       \<and> calculateUserStats (owner tr) [] = \<lparr>uniqueMarkets = 0, totalTrades = 0\<rparr>
       \<and> (\<exists>s st2. analyzeTrade up cfg tr st = Some (Some s, st2)
             \<and> trade s = tr
             \<and> uniqueMarkets_u (userStats s) = 0 \<and> totalTrades_u (userStats s) = 0)"
proof -
  let ?st0 = "st\<lparr>clockReads := clockReads st + 1\<rparr>"
  have t: "\<forall>i<n. activityResponse up (requests ?st0 + i) (owner tr) = Rejected429"
    using throttled by simp
  have f: "activityResponse up (requests ?st0 + n) (owner tr) = RejectedOther"
    using failed by simp
  from fetchUserActivity_failed [OF t f] obtain st' where
    fetch: "fetchUserActivity up (owner tr) ?st0 = Some ([], st')"
    and req: "requests st' = requests st + n + 1"
    and same: "sameMain (?st0\<lparr>fetchLog := fetchLog ?st0 @ [FetchActivity (owner tr)]\<rparr>) st'"
    by auto
  let ?e = "\<lparr>uniqueMarkets = 0, totalTrades = 0, timestamp = dateNow up (clockReads st)\<rparr>"
  let ?st1 = "st'\<lparr>userStatsCache := evictOldest (Map_set (owner tr) ?e (userStatsCache st'))\<rparr>"
  have stats: "lookupUserStats up (owner tr) st = Some (\<lparr>uniqueMarkets = 0, totalTrades = 0\<rparr>, ?st1)"
    using miss fetch by (simp add: lookupUserStats_alt refreshUserStats_def calculateUserStats_empty)
  have "marketCache ?st1 = marketCache st" using same by (simp add: sameMain_def)
  moreover have "requests ?st1 = requests st + n + 1" using req by simp
  ultimately have "Map_has (marketCache ?st1) (market_t tr)
      \<or> (\<exists>i. marketsResponse up (requests ?st1 + i) (market_t tr) \<noteq> Rejected429)"
    using mkt by simp
  from lookupMarket_returns [OF this] obtain m st2 where
    market: "lookupMarket up (market_t tr) ?st1 = Some (m, st2)" by blast
  have "\<exists>s. analyzeTrade up cfg tr st = Some (Some s, st2)
             \<and> trade s = tr
             \<and> uniqueMarkets_u (userStats s) = 0 \<and> totalTrades_u (userStats s) = 0"
    using wallet stats market nonneg by (simp add: analyzeTrade_def)
  with fetch show ?thesis by (auto simp: calculateUserStats_empty)
qed

theorem failed_activity_fetch_flags_witness:
  "\<exists>s st2. analyzeTrade failingUpstream defaultConfig sampleTrade initialState = Some (Some s, st2)
       \<and> uniqueMarkets_u (userStats s) = 0 \<and> totalTrades_u (userStats s) = 0"
proof -
  have wallet: "owner sampleTrade \<noteq> []" by (simp add: sampleTrade_def)
  have miss: "\<not> cacheHit (userStatsCache initialState) (owner sampleTrade)
                  (dateNow failingUpstream (clockReads initialState))"
    by (simp add: cacheHit_def initialState_def Map_get_def)
  have throttled: "\<forall>i<2. activityResponse failingUpstream (requests initialState + i) (owner sampleTrade)
                     = Rejected429"
    by (simp add: failingUpstream_def initialState_def)
  have failed: "activityResponse failingUpstream (requests initialState + 2) (owner sampleTrade)
                     = RejectedOther"
    by (simp add: failingUpstream_def initialState_def)
  have nonneg: "0 \<le> MAX_UNIQUE_MARKETS defaultConfig" by (simp add: defaultConfig_def)
  have "marketsResponse failingUpstream (requests initialState + 2 + 1 + 0) (market_t sampleTrade)
          \<noteq> Rejected429"
    by (simp add: failingUpstream_def feedOf_def)
  then have mkt: "Map_has (marketCache initialState) (market_t sampleTrade)
      \<or> (\<exists>i. marketsResponse failingUpstream (requests initialState + 2 + 1 + i) (market_t sampleTrade)
             \<noteq> Rejected429)"
    by blast
  from failed_activity_fetch_flags [OF wallet miss throttled failed nonneg mkt]
  show ?thesis by blast
qed

subsection \<open>Trade value\<close>

lemma parseFloat_no_literal:
  "scanStrDecimalLiteral (dropWhile isWhiteSpace s) = None \<Longrightarrow> js_or0 (parseFloat s) = Num 0"
  by (simp add: parseFloat_def)

lemma parseFloat_literal:
  "scanStrDecimalLiteral (dropWhile isWhiteSpace s) = Some (v, r) \<Longrightarrow> parseFloat s = v"
  by (simp add: parseFloat_def)

text \<open>
  C7, as the code has it. The value is the binary64 product of the two parsed fields,
  and \<open>value(price = "0.42", size = "1000")\<close> is exactly 420. A field in which no
  numeric literal starts (after leading white space) counts as 0. A field that starts
  with a numeric literal counts as that literal, whatever follows it. The computation is
  total: no step of it can throw.
\<close>

theorem calculateTradeValue_parses:
  "calculateTradeValue (tr\<lparr>price_t := ''0.42'', size_t := ''1000''\<rparr>) = Num 420
   \<and> calculateTradeValue tr = js_mul (js_or0 (parseFloat (price_t tr))) (js_or0 (parseFloat (size_t tr)))
   \<and> (scanStrDecimalLiteral (dropWhile isWhiteSpace (price_t tr)) = None \<longrightarrow>
        calculateTradeValue tr = js_mul (Num 0) (js_or0 (parseFloat (size_t tr))))
   \<and> (scanStrDecimalLiteral (dropWhile isWhiteSpace (size_t tr)) = None \<longrightarrow>
        calculateTradeValue tr = js_mul (js_or0 (parseFloat (price_t tr))) (Num 0))
   \<and> (\<forall>v r. scanStrDecimalLiteral (dropWhile isWhiteSpace (price_t tr)) = Some (v, r) \<longrightarrow>
        calculateTradeValue tr = js_mul (js_or0 v) (js_or0 (parseFloat (size_t tr))))
   \<and> (\<forall>v r. scanStrDecimalLiteral (dropWhile isWhiteSpace (size_t tr)) = Some (v, r) \<longrightarrow>
        calculateTradeValue tr = js_mul (js_or0 (parseFloat (price_t tr))) (js_or0 v))"
proof -
  have p: "parseFloat ''0.42'' = Num (7566047373982433 / 18014398509481984)"
    by (simp add: parseFloat_eval binary64_eval)
  have s: "parseFloat ''1000'' = Num 1000"
    by (simp add: parseFloat_eval binary64_eval)
  have "calculateTradeValue (tr\<lparr>price_t := ''0.42'', size_t := ''1000''\<rparr>) = Num 420"
    by (simp add: calculateTradeValue_def p s binary64_eval)
  then show ?thesis
    by (auto simp: calculateTradeValue_def parseFloat_no_literal parseFloat_literal)
qed

theorem calculateTradeValue_parses_witness:
  "calculateTradeValue (sampleTrade\<lparr>price_t := ''abc''\<rparr>) = Num 0
   \<and> calculateTradeValue (sampleTrade\<lparr>price_t := ''0.5 USD''\<rparr>) = Num 6000"
proof -
  have none: "scanStrDecimalLiteral (dropWhile isWhiteSpace (price_t (sampleTrade\<lparr>price_t := ''abc''\<rparr>))) = None"
    by (simp add: parseFloat_eval)
  have some: "scanStrDecimalLiteral (dropWhile isWhiteSpace (price_t (sampleTrade\<lparr>price_t := ''0.5 USD''\<rparr>)))
      = Some (Num (1 / 2), '' USD'')"
    by (simp add: parseFloat_eval binary64_eval)
  have size: "parseFloat ''12000'' = Num 12000"
    by (simp add: parseFloat_eval binary64_eval)
  have sz: "size_t (sampleTrade\<lparr>price_t := p\<rparr>) = ''12000''" for p
    by (simp add: sampleTrade_def)
  have "calculateTradeValue (sampleTrade\<lparr>price_t := ''abc''\<rparr>)
          = js_mul (Num 0) (js_or0 (parseFloat (size_t (sampleTrade\<lparr>price_t := ''abc''\<rparr>))))"
    using calculateTradeValue_parses [of "sampleTrade\<lparr>price_t := ''abc''\<rparr>",
        THEN conjunct2, THEN conjunct2, THEN conjunct1] none
    by (rule mp)
  then have a: "calculateTradeValue (sampleTrade\<lparr>price_t := ''abc''\<rparr>) = Num 0"
    by (simp add: sz size binary64_eval)
  have "calculateTradeValue (sampleTrade\<lparr>price_t := ''0.5 USD''\<rparr>)
          = js_mul (js_or0 (Num (1 / 2)))
              (js_or0 (parseFloat (size_t (sampleTrade\<lparr>price_t := ''0.5 USD''\<rparr>))))"
    using calculateTradeValue_parses [of "sampleTrade\<lparr>price_t := ''0.5 USD''\<rparr>",
        THEN conjunct2, THEN conjunct2, THEN conjunct2, THEN conjunct2, THEN conjunct1,
        rule_format, OF some] .
  then have b: "calculateTradeValue (sampleTrade\<lparr>price_t := ''0.5 USD''\<rparr>) = Num 6000"
    by (simp add: sz size binary64_eval)
  from a b show ?thesis by simp
qed

text \<open>
  The field \<open>"12abc"\<close> is a malformed numeric string and parses as 12, not as 0.
\<close>

theorem malformed_field_counterexample:
  "\<not> wellFormedNumeric ''12abc''
   \<and> js_or0 (parseFloat ''12abc'') = Num 12
   \<and> calculateTradeValue (sampleTrade\<lparr>price_t := ''12abc'', size_t := ''1000''\<rparr>) = Num 12000"
  by (simp add: calculateTradeValue_def wellFormedNumeric_def parseFloat_eval binary64_eval)

subsection \<open>One cycle, end to end\<close>

lemma withRetry_Resolved:
  "fn (requests st) = Resolved r \<Longrightarrow>
   withRetry fn st =
     Some (Some r, st\<lparr>requests := requests st + 1, currentBackoff := INITIAL_BACKOFF_MS\<rparr>)"
  by (subst withRetry.simps) simp

lemma withRetry_RejectedOther:
  "fn (requests st) = RejectedOther \<Longrightarrow>
   withRetry fn st = Some (None, st\<lparr>requests := requests st + 1\<rparr>)"
  by (subst withRetry.simps) simp

lemmas world_eval = pollTrades_def fetchRecentTrades_def fetchUserActivity_def fetchMarketDetails_def
  withRetry_Resolved withRetry_RejectedOther lookupUserStats_alt refreshUserStats_def lookupMarket_def
  analyzeTrade_def
  cacheHit_def evictOldest_def Map_get_def Map_set_def Map_has_def Map_delete_def
  isNew_def isLarge_def isAggressive_def withValue_def addProcessed_def evictProcessed_def toRemove_def
  Set_has_def Set_add_def Set_delete_def classify_def valueOr0_def freshWalletText_def
  calculateUserStats_def qualifies_def digitChar_def firstOrNull_def alertSuspect_throws_def
  initialState_def defaultConfig_def feedOf_def Let_def
  calculateTradeValue_sampleTrade

lemma sampleTrade_fields:
  "owner sampleTrade = ''0x31a2b4c5d6e7f8''" "market_t sampleTrade = ''0xmarket1''"
  "id_t sampleTrade = ''trade-1''" "side_t sampleTrade = BUY"
  by (simp_all add: sampleTrade_def)

lemma sampleActivity_fields:
  "market_a (sampleActivity m) = m" "type_a (sampleActivity m) = ''trade''"
  by (simp_all add: sampleActivity_def)

text \<open>
  C2, as the code has it. A cycle whose batch is one new BUY trade with a wallet and a
  value of 6000 (at least the configured minimum), from a wallet whose lookup gives
  exactly 1 market, produces exactly one alert. It is HIGH by the first rule (at most 2
  markets and at least 5000), and its reason is the market count, the aggressive buy and
  the large position: \<open>Fresh Wallet (1 lifetime market) | Taker BUY (aggressive) | Large
  Position ($\<dots>)\<close>, the amount as the runtime's locale prints it.
\<close>

theorem pollTrades_single_large_buy:
  assumes fetch: "fetchRecentTrades up 100 (st\<lparr>pollCount := pollCount st + 1\<rparr>) = Some ([tr], st1)"
    and new: "id_t tr \<notin> set (processedTradeIds st)"
    and buy: "side_t tr = BUY"
    and wallet: "owner tr \<noteq> []"
    and val: "calculateTradeValue tr = Num 6000"
    and large: "MIN_TRADE_SIZE_USD cfg \<le> 6000"
    and stats: "lookupUserStats up (owner tr)
                  (st1\<lparr>processedTradeIds := evictProcessed (addProcessed [tr] (processedTradeIds st1))\<rparr>)
                = Some (stats, st2)"
    and one: "uniqueMarkets stats = 1"
    and ceiling: "1 \<le> MAX_UNIQUE_MARKETS cfg"
    and mkt: "lookupMarket up (market_t tr) st2 = Some (m, st3)"
  shows "\<exists>rep s. pollTrades up cfg st = Some (rep, st3)
           \<and> suspects rep = [s] \<and> alerted rep = [s]
           \<and> trade s = tr\<lparr>valueUsd := Some (Num 6000)\<rparr>
           \<and> alertLevel s = HIGH
           \<and> reason s = ''Fresh Wallet (1 lifetime market) | Taker BUY (aggressive) | Large Position ($''
                          @ toLocaleString up (Num 6000) @ '')''"
proof -
  from fetchRecentTrades_processed [OF fetch]
  have p: "processedTradeIds st1 = processedTradeIds st" by simp
  let ?tr = "tr\<lparr>valueUsd := Some (Num 6000)\<rparr>"
  let ?s = "\<lparr>trade = ?tr,
             userStats = \<lparr>address = owner tr, uniqueMarkets_u = 1, totalTrades_u = totalTrades stats,
                          activities = []\<rparr>,
             market = m,
             reason = ''Fresh Wallet (1 lifetime market) | Taker BUY (aggressive) | Large Position ($''
                          @ toLocaleString up (Num 6000) @ '')'',
             alertLevel = HIGH\<rparr>"
  have an: "analyzeTrade up cfg ?tr
              (st1\<lparr>processedTradeIds := evictProcessed (addProcessed [tr] (processedTradeIds st1))\<rparr>)
            = Some (Some ?s, st3)"
    using wallet stats one ceiling mkt
    by (simp add: analyzeTrade_def classify_def valueOr0_def freshWalletText_def digitChar_def)
  have isnew: "filter (isNew (processedTradeIds st1)) [tr] = [tr]"
    using new p by (simp add: isNew_def Set_has_def)
  have lg: "isLarge cfg (withValue tr)" using val large by (simp add: isLarge_def withValue_def)
  have ag: "isAggressive (withValue tr)" using buy wallet by (simp add: isAggressive_def withValue_def)
  have wv: "withValue tr = ?tr" using val by (simp add: withValue_def)
  have "pollTrades up cfg st =
          Some (\<lparr>fetched = [tr], newTrades = [tr],
                 evicted = toRemove (addProcessed [tr] (processedTradeIds st1)),
                 largeTrades = [?tr], aggressiveTrades = [?tr],
                 suspects = [?s], alerted = [?s]\<rparr>, st3)"
    using fetch isnew lg ag an by (simp add: pollTrades_def Let_def wv)
  then show ?thesis by simp
qed

theorem pollTrades_single_large_buy_witness:
  "\<exists>rep s st3. pollTrades (feedOf [sampleTrade] [sampleActivity ''0xmarket0'']) defaultConfig initialState
                 = Some (rep, st3)
     \<and> alerted rep = [s] \<and> alertLevel s = HIGH
     \<and> reason s = ''Fresh Wallet (1 lifetime market) | Taker BUY (aggressive) | Large Position ($6,000)''
     \<and> includes_str (reason s) ''Large Position''
     \<and> includes_str (reason s) ''(1 lifetime market)''"
proof -
  let ?up = "feedOf [sampleTrade] [sampleActivity ''0xmarket0'']"
  let ?st1 = "initialState\<lparr>pollCount := 1, fetchLog := [FetchTrades 100], requests := 1\<rparr>"
  let ?w = "''0x31a2b4c5d6e7f8''"
  let ?e = "\<lparr>uniqueMarkets = 1, totalTrades = 1, timestamp = 1000\<rparr>"
  let ?st2 = "initialState\<lparr>pollCount := 1,
                fetchLog := [FetchTrades 100, FetchActivity ?w], requests := 2,
                processedTradeIds := [''trade-1''], clockReads := 1,
                userStatsCache := [(?w, ?e)]\<rparr>"
  let ?st3 = "initialState\<lparr>pollCount := 1,
                fetchLog := [FetchTrades 100, FetchActivity ?w, FetchMarket ''0xmarket1''],
                requests := 3,
                processedTradeIds := [''trade-1''], clockReads := 1,
                userStatsCache := [(?w, ?e)], marketCache := [(''0xmarket1'', None)]\<rparr>"
  have fetch: "fetchRecentTrades ?up 100 (initialState\<lparr>pollCount := pollCount initialState + 1\<rparr>)
                 = Some ([sampleTrade], ?st1)"
    by (simp add: world_eval)
  have new: "id_t sampleTrade \<notin> set (processedTradeIds initialState)"
    by (simp add: initialState_def)
  have large: "MIN_TRADE_SIZE_USD defaultConfig \<le> 6000" by (simp add: defaultConfig_def)
  have stats: "lookupUserStats ?up (owner sampleTrade)
                  (?st1\<lparr>processedTradeIds :=
                          evictProcessed (addProcessed [sampleTrade] (processedTradeIds ?st1))\<rparr>)
                = Some (\<lparr>uniqueMarkets = 1, totalTrades = 1\<rparr>, ?st2)"
    by (simp add: world_eval sampleTrade_fields sampleActivity_fields)
  have ceiling: "1 \<le> MAX_UNIQUE_MARKETS defaultConfig" by (simp add: defaultConfig_def)
  have mkt: "lookupMarket ?up (market_t sampleTrade) ?st2 = Some (None, ?st3)"
    by (simp add: world_eval sampleTrade_fields)
  from pollTrades_single_large_buy [OF fetch new sampleTrade_fields(4) _ calculateTradeValue_sampleTrade
      large stats _ ceiling mkt]
  obtain rep s where
    "pollTrades ?up defaultConfig initialState = Some (rep, ?st3)"
    "alerted rep = [s]" "alertLevel s = HIGH"
    "reason s = ''Fresh Wallet (1 lifetime market) | Taker BUY (aggressive) | Large Position ($''
                          @ toLocaleString ?up (Num 6000) @ '')''"
    by (auto simp: sampleTrade_fields)
  then show ?thesis
    by (intro exI [of _ rep] exI [of _ s] exI [of _ ?st3]) (simp add: feedOf_def)
qed

text \<open>
  In that scenario the second rule is never reached: the reason holds no
  \<open>Brand New Wallet\<close> clause, under either spelling.
\<close>

theorem brand_new_wallet_counterexample:
  "map_option (map (\<lambda>s. (alertLevel s, reason s,
                            includes_str (reason s) ''Brand New Wallet'',
                            includes_str (reason s) ''brand-new wallet'')) \<circ> alerted \<circ> fst)
     (pollTrades (feedOf [sampleTrade] [sampleActivity ''0xmarket0'']) defaultConfig initialState)
   = Some [(HIGH,
            ''Fresh Wallet (1 lifetime market) | Taker BUY (aggressive) | Large Position ($6,000)'',
            False, False)]"
  by (simp add: world_eval sampleTrade_fields sampleActivity_fields)

subsection \<open>Every step returns when the upstream never throttles\<close>

lemma withRetry_unthrottled:
  "fn (requests st) \<noteq> Rejected429 \<Longrightarrow> \<exists>r st'. withRetry fn st = Some (r, st')"
  by (subst withRetry.simps) (cases "fn (requests st)"; simp)

lemma fetchRecentTrades_returns:
  "neverThrottled up \<Longrightarrow> \<exists>b st'. fetchRecentTrades up limit st = Some (b, st')"
proof -
  assume "neverThrottled up"
  then have "tradesResponse up (requests (st\<lparr>fetchLog := fetchLog st @ [FetchTrades limit]\<rparr>))
               \<noteq> Rejected429"
    by (simp add: neverThrottled_def)
  from withRetry_unthrottled [of "tradesResponse up"
      "st\<lparr>fetchLog := fetchLog st @ [FetchTrades limit]\<rparr>", OF this] show ?thesis
    by (auto simp: fetchRecentTrades_def)
qed

lemma lookupUserStats_returns:
  assumes "neverThrottled up"
  shows "\<exists>s st'. lookupUserStats up w st = Some (s, st')"
proof (cases "cacheHit (userStatsCache st) w (dateNow up (clockReads st))")
  case True
  from lookupUserStats_hit [OF True] show ?thesis by blast
next
  case False
  from assms have "\<exists>i. activityResponse up (requests (st\<lparr>clockReads := clockReads st + 1\<rparr>) + i) w
                        \<noteq> Rejected429"
    by (simp add: neverThrottled_def)
  from fetchUserActivity_returns [OF this] obtain acts st' where
    "fetchUserActivity up w (st\<lparr>clockReads := clockReads st + 1\<rparr>) = Some (acts, st')" by blast
  with False show ?thesis by (simp add: lookupUserStats_alt refreshUserStats_def)
qed

lemma analyzeTrade_returns:
  assumes "neverThrottled up"
  shows "\<exists>r st'. analyzeTrade up cfg tr st = Some (r, st')"
proof -
  obtain s st1 where s: "lookupUserStats up (owner tr) st = Some (s, st1)"
    using lookupUserStats_returns [OF assms] by blast
  from assms have "Map_has (marketCache st1) (market_t tr)
      \<or> (\<exists>i. marketsResponse up (requests st1 + i) (market_t tr) \<noteq> Rejected429)"
    by (simp add: neverThrottled_def)
  from lookupMarket_returns [OF this] obtain m st2 where
    "lookupMarket up (market_t tr) st1 = Some (m, st2)" by blast
  with s show ?thesis by (simp add: analyzeTrade_def)
qed

lemma analyzeAll_returns:
  assumes "neverThrottled up"
  shows "\<exists>found st'. analyzeAll up cfg trs st = Some (found, st')"
proof (induction trs arbitrary: st)
  case Nil
  show ?case by simp
next
  case (Cons tr rest)
  obtain r st1 where a: "analyzeTrade up cfg tr st = Some (r, st1)"
    using analyzeTrade_returns [OF assms] by blast
  from Cons.IH [of st1] obtain f st2 where "analyzeAll up cfg rest st1 = Some (f, st2)" by blast
  with a show ?case by simp
qed

lemma pollTrades_returns:
  assumes "neverThrottled up"
  shows "\<exists>rep st'. pollTrades up cfg st = Some (rep, st')"
proof -
  obtain b st1 where f: "fetchRecentTrades up 100 (st\<lparr>pollCount := pollCount st + 1\<rparr>) = Some (b, st1)"
    using fetchRecentTrades_returns [OF assms] by blast
  let ?ids = "addProcessed (filter (isNew (processedTradeIds st1)) b) (processedTradeIds st1)"
  let ?trs = "filter isAggressive (filter (isLarge cfg)
                 (map withValue (filter (isNew (processedTradeIds st1)) b)))"
  obtain found st2 where
    "analyzeAll up cfg ?trs (st1\<lparr>processedTradeIds := evictProcessed ?ids\<rparr>) = Some (found, st2)"
    using analyzeAll_returns [OF assms] by blast
  with f show ?thesis by (simp add: pollTrades_def Let_def)
qed

lemma runCycles_returns:
  assumes "neverThrottled up"
  shows "\<exists>reps st'. runCycles up cfg n st = Some (reps, st')"
proof (induction n arbitrary: st)
  case 0
  show ?case by simp
next
  case (Suc n)
  obtain rep st1 where p: "pollTrades up cfg st = Some (rep, st1)"
    using pollTrades_returns [OF assms] by blast
  from Suc.IH [of st1] obtain reps st2 where "runCycles up cfg n st1 = Some (reps, st2)" by blast
  with p show ?case by simp
qed

lemma pollTrades_fetched:
  assumes "pollTrades up cfg st = Some (rep, st')"
    and "tradesResponse up (requests st) = Resolved b"
  shows "fetched rep = b"
proof -
  have "fetchRecentTrades up 100 (st\<lparr>pollCount := pollCount st + 1\<rparr>) =
          Some (b, st\<lparr>pollCount := pollCount st + 1, fetchLog := fetchLog st @ [FetchTrades 100],
                     requests := requests st + 1, currentBackoff := INITIAL_BACKOFF_MS\<rparr>)"
    using assms(2) by (simp add: fetchRecentTrades_def withRetry_Resolved)
  with assms(1) show ?thesis
    by (auto simp: pollTrades_def Let_def split: option.splits)
qed

subsection \<open>Eviction from the processed set\<close>

text \<open>
  C6. The processed set holds the old identifiers followed by the new ones of the cycle,
  in insertion order. Whenever it holds more than 10000 after the additions, the cycle
  removes exactly its first 5000 entries and keeps every later one, in order.
\<close>

theorem pollTrades_evicts_oldest_half:
  assumes run: "pollTrades up cfg st = Some (rep, st')"
    and d: "distinct (processedTradeIds st)"
    and over: "10000 < length (addProcessed (newTrades rep) (processedTradeIds st))"
  shows "evicted rep = take 5000 (addProcessed (newTrades rep) (processedTradeIds st))
       \<and> processedTradeIds st' = drop 5000 (addProcessed (newTrades rep) (processedTradeIds st))
       \<and> addProcessed (newTrades rep) (processedTradeIds st) = evicted rep @ processedTradeIds st'
       \<and> set (evicted rep) \<inter> set (processedTradeIds st') = {}
       \<and> length (evicted rep) = 5000"
proof -
  let ?ids = "addProcessed (newTrades rep) (processedTradeIds st)"
  have dd: "distinct ?ids" using d by (rule addProcessed_distinct)
  from pollTrades_dedup [OF run]
  have e: "evicted rep = toRemove ?ids" and p: "processedTradeIds st' = evictProcessed ?ids"
    by simp_all
  have e': "evicted rep = take 5000 ?ids" using e over by (simp add: toRemove_take)
  have p': "processedTradeIds st' = drop 5000 ?ids"
    using p dd over by (simp add: evictProcessed_drop)
  have "set (take 5000 ?ids) \<inter> set (drop 5000 ?ids) = {}"
    using dd by (metis append_take_drop_id distinct_append)
  with e' p' over show ?thesis by simp
qed

lemma manyIds_length: "length manyIds = 10000"
  by (simp add: manyIds_def)

lemma manyIds_distinct: "distinct manyIds"
proof -
  have "inj_on (\<lambda>n. replicate (Suc n) CHR ''x'') (set [0..<10000])"
    by (rule inj_onI) (metis length_replicate nat.inject)
  then show ?thesis by (simp add: manyIds_def distinct_map)
qed

lemma manyIds_fresh: "''trade-1'' \<notin> set manyIds"
proof
  assume "''trade-1'' \<in> set manyIds"
  then obtain n where "''trade-1'' = replicate (Suc n) CHR ''x''" by (auto simp: manyIds_def)
  then have "hd ''trade-1'' = hd (replicate (Suc n) CHR ''x'')" by simp
  then show False by simp
qed

theorem pollTrades_evicts_oldest_half_witness:
  "\<exists>rep st'. pollTrades (feedOf [sampleTrade] []) defaultConfig fullState = Some (rep, st')
      \<and> evicted rep = take 5000 manyIds
      \<and> processedTradeIds st' = drop 5000 manyIds @ [''trade-1'']"
proof -
  let ?up = "feedOf [sampleTrade] []"
  have "neverThrottled ?up" by (simp add: neverThrottled_def feedOf_def)
  from pollTrades_returns [OF this] obtain rep st' where
    run: "pollTrades ?up defaultConfig fullState = Some (rep, st')" by blast
  have "tradesResponse ?up (requests fullState) = Resolved [sampleTrade]"
    by (simp add: feedOf_def)
  from pollTrades_fetched [OF run this] have f: "fetched rep = [sampleTrade]" .
  have ids: "processedTradeIds fullState = manyIds" by (simp add: fullState_def)
  from pollTrades_dedup [OF run] f ids manyIds_fresh
  have new: "newTrades rep = [sampleTrade]"
    by (simp add: isNew_def Set_has_def sampleTrade_fields)
  have added: "addProcessed (newTrades rep) (processedTradeIds fullState) = manyIds @ [''trade-1'']"
    using manyIds_fresh
    by (simp add: new ids addProcessed_def Set_add_def Set_has_def sampleTrade_fields)
  have d: "distinct (processedTradeIds fullState)" by (simp add: ids manyIds_distinct)
  have over: "10000 < length (addProcessed (newTrades rep) (processedTradeIds fullState))"
    by (simp add: added manyIds_length)
  from pollTrades_evicts_oldest_half [OF run d over]
  have "evicted rep = take 5000 manyIds"
    and "processedTradeIds st' = drop 5000 manyIds @ [''trade-1'']"
    by (simp_all add: added manyIds_length)
  with run show ?thesis by blast
qed

subsection \<open>No trade is new twice\<close>

lemma evictProcessed_set: "set (evictProcessed ids) = set ids - set (toRemove ids)"
  by (auto simp: evictProcessed_def fold_Set_delete)

lemma pollTrades_new_unseen:
  assumes "pollTrades up cfg st = Some (rep, st')"
  shows "set (newIds rep) \<inter> set (processedTradeIds st) = {}"
    and "set (newIds rep) \<subseteq> id_t ` set (fetched rep)"
    and "distinct (map id_t (fetched rep)) \<Longrightarrow> distinct (newIds rep)"
  using pollTrades_dedup [OF assms]
  by (auto simp: newIds_def isNew_def Set_has_def distinct_map_filter)

lemma pollTrades_processed_after:
  assumes "pollTrades up cfg st = Some (rep, st')"
  shows "set (processedTradeIds st') =
           (set (processedTradeIds st) \<union> set (newIds rep)) - set (evicted rep)"
  using pollTrades_dedup [OF assms]
  by (simp add: evictProcessed_set addProcessed_set newIds_def)

lemma runCycles_Suc:
  assumes "runCycles up cfg (Suc n) st = Some (reps, st')"
  obtains rep st1 rest where "pollTrades up cfg st = Some (rep, st1)"
    and "runCycles up cfg n st1 = Some (rest, st')" and "reps = rep # rest"
  using assms by (auto split: option.splits)

lemma runCycles_length: "runCycles up cfg n st = Some (reps, st') \<Longrightarrow> length reps = n"
proof (induction n arbitrary: st reps)
  case 0
  then show ?case by simp
next
  case (Suc n)
  from Suc.prems obtain rep st1 rest where "runCycles up cfg n st1 = Some (rest, st')"
    and "reps = rep # rest" by (rule runCycles_Suc)
  with Suc.IH show ?case by simp
qed

lemma seen_then_evicted:
  "runCycles up cfg n st = Some (reps, st') \<Longrightarrow>
   x \<in> set (processedTradeIds st) \<Longrightarrow> j < length reps \<Longrightarrow> x \<in> set (newIds (reps ! j)) \<Longrightarrow>
   \<exists>k<j. x \<in> set (evicted (reps ! k))"
proof (induction n arbitrary: st reps j)
  case 0
  then show ?case by simp
next
  case (Suc n)
  from Suc.prems(1) obtain rep st1 rest where
    p: "pollTrades up cfg st = Some (rep, st1)"
    and r: "runCycles up cfg n st1 = Some (rest, st')" and reps: "reps = rep # rest"
    by (rule runCycles_Suc)
  show ?case
  proof (cases j)
    case 0
    with Suc.prems(4) reps have "x \<in> set (newIds rep)" by simp
    with pollTrades_new_unseen(1) [OF p] Suc.prems(2) show ?thesis by blast
  next
    case (Suc j')
    with Suc.prems(3,4) reps have j': "j' < length rest" and xj: "x \<in> set (newIds (rest ! j'))"
      by simp_all
    show ?thesis
    proof (cases "x \<in> set (processedTradeIds st1)")
      case True
      from Suc.IH [OF r True j' xj] obtain k where "k < j'" "x \<in> set (evicted (rest ! k))"
        by blast
      then have "Suc k < j \<and> x \<in> set (evicted (reps ! Suc k))" using Suc reps by simp
      then show ?thesis by blast
    next
      case False
      with pollTrades_processed_after [OF p] Suc.prems(2) have "x \<in> set (evicted rep)" by blast
      then have "0 < j \<and> x \<in> set (evicted (reps ! 0))" using Suc reps by simp
      then show ?thesis by blast
    qed
  qed
qed

lemma repeat_needs_eviction:
  "runCycles up cfg n st = Some (reps, st') \<Longrightarrow>
   i < j \<Longrightarrow> j < length reps \<Longrightarrow>
   x \<in> set (newIds (reps ! i)) \<Longrightarrow> x \<in> set (newIds (reps ! j)) \<Longrightarrow>
   \<exists>k. i \<le> k \<and> k < j \<and> x \<in> set (evicted (reps ! k))"
proof (induction n arbitrary: st reps i j)
  case 0
  then show ?case by simp
next
  case (Suc n)
  from Suc.prems(1) obtain rep st1 rest where
    p: "pollTrades up cfg st = Some (rep, st1)"
    and r: "runCycles up cfg n st1 = Some (rest, st')" and reps: "reps = rep # rest"
    by (rule runCycles_Suc)
  from Suc.prems(2) obtain j' where j: "j = Suc j'" by (cases j) auto
  with Suc.prems(3,5) reps have j': "j' < length rest" and xj: "x \<in> set (newIds (rest ! j'))"
    by simp_all
  show ?case
  proof (cases i)
    case 0
    with Suc.prems(4) reps have xi: "x \<in> set (newIds rep)" by simp
    show ?thesis
    proof (cases "x \<in> set (processedTradeIds st1)")
      case True
      from seen_then_evicted [OF r True j' xj] obtain k where
        "k < j'" "x \<in> set (evicted (rest ! k))" by blast
      then have "i \<le> Suc k \<and> Suc k < j \<and> x \<in> set (evicted (reps ! Suc k))"
        using 0 j reps by simp
      then show ?thesis by blast
    next
      case False
      with pollTrades_processed_after [OF p] xi have "x \<in> set (evicted rep)" by blast
      then have "i \<le> 0 \<and> 0 < j \<and> x \<in> set (evicted (reps ! 0))" using 0 j reps by simp
      then show ?thesis by blast
    qed
  next
    case (Suc i')
    with Suc.prems(2,4) j reps have "i' < j'" and "x \<in> set (newIds (rest ! i'))" by simp_all
    from Suc.IH [OF r this(1) j' this(2) xj] obtain k where
      "i' \<le> k" "k < j'" "x \<in> set (evicted (rest ! k))" by blast
    then have "i \<le> Suc k \<and> Suc k < j \<and> x \<in> set (evicted (reps ! Suc k))"
      using Suc j reps by simp
    then show ?thesis by blast
  qed
qed

lemma no_eviction_run:
  "runCycles up cfg n st = Some (reps, st') \<Longrightarrow>
   distinct (processedTradeIds st) \<Longrightarrow>
   (\<forall>r\<in>set reps. distinct (map id_t (fetched r))) \<Longrightarrow>
   card (set (processedTradeIds st) \<union> (\<Union>r\<in>set reps. id_t ` set (fetched r))) \<le> 10000 \<Longrightarrow>
   distinct (concat (map newIds reps))
   \<and> set (concat (map newIds reps)) \<inter> set (processedTradeIds st) = {}
   \<and> (\<forall>r\<in>set reps. evicted r = [])"
proof (induction n arbitrary: st reps)
  case 0
  then show ?case by simp
next
  case (Suc n)
  from Suc.prems(1) obtain rep st1 rest where
    p: "pollTrades up cfg st = Some (rep, st1)"
    and r: "runCycles up cfg n st1 = Some (rest, st')" and reps: "reps = rep # rest"
    by (rule runCycles_Suc)
  let ?all = "set (processedTradeIds st) \<union> (\<Union>r\<in>set reps. id_t ` set (fetched r))"
  let ?ids = "addProcessed (newTrades rep) (processedTradeIds st)"
  have fin: "finite ?all" by simp
  have new_sub: "set (newIds rep) \<subseteq> id_t ` set (fetched rep)"
    by (rule pollTrades_new_unseen(2) [OF p])
  have ids_set: "set ?ids = set (processedTradeIds st) \<union> set (newIds rep)"
    by (simp add: addProcessed_set newIds_def)
  have ids_sub: "set ?ids \<subseteq> ?all" using new_sub ids_set reps by auto
  have dd: "distinct ?ids" using Suc.prems(2) by (rule addProcessed_distinct)
  have "length ?ids = card (set ?ids)" using dd by (simp add: distinct_card)
  also have "\<dots> \<le> card ?all" using ids_sub fin by (rule card_mono [rotated])
  finally have small: "\<not> 10000 < length ?ids" using Suc.prems(4) by simp
  from pollTrades_dedup [OF p] small
  have ev: "evicted rep = []" and st1: "processedTradeIds st1 = ?ids"
    by (simp_all add: toRemove_def evictProcessed_small)
  have d1: "distinct (processedTradeIds st1)" using dd st1 by simp
  have f1: "\<forall>r\<in>set rest. distinct (map id_t (fetched r))" using Suc.prems(3) reps by simp
  have "set (processedTradeIds st1) \<union> (\<Union>r\<in>set rest. id_t ` set (fetched r)) \<subseteq> ?all"
    using ids_sub st1 reps by auto
  then have "card (set (processedTradeIds st1) \<union> (\<Union>r\<in>set rest. id_t ` set (fetched r)))
               \<le> card ?all"
    using fin by (rule card_mono [rotated])
  then have c1: "card (set (processedTradeIds st1) \<union> (\<Union>r\<in>set rest. id_t ` set (fetched r)))
               \<le> 10000"
    using Suc.prems(4) by simp
  from Suc.IH [OF r d1 f1 c1]
  have ih1: "distinct (concat (map newIds rest))"
    and ih2: "set (concat (map newIds rest)) \<inter> set (processedTradeIds st1) = {}"
    and ih3: "\<forall>r\<in>set rest. evicted r = []" by simp_all
  have dn: "distinct (newIds rep)"
    using pollTrades_new_unseen(3) [OF p] Suc.prems(3) reps by simp
  have un: "set (newIds rep) \<inter> set (processedTradeIds st) = {}"
    by (rule pollTrades_new_unseen(1) [OF p])
  from ih2 st1 ids_set
  have "set (concat (map newIds rest)) \<inter> set (newIds rep) = {}"
    and "set (concat (map newIds rest)) \<inter> set (processedTradeIds st) = {}" by auto
  with ih1 ih3 dn un ev reps show ?case by auto
qed

lemma alertAll_sub: "\<exists>rest. found = alertAll up cfg found @ rest"
proof (induction found)
  case Nil
  show ?case by simp
next
  case (Cons s found)
  then show ?case by (cases "alertSuspect_throws up cfg s") auto
qed

lemma pollTrades_alerts:
  assumes "pollTrades up cfg st = Some (rep, st')"
  shows "set (alertIds rep) \<subseteq> set (newIds rep)"
    and "distinct (newIds rep) \<Longrightarrow> distinct (alertIds rep)"
proof -
  from assms obtain batch st1 found where
    a: "analyzeAll up cfg
              (filter isAggressive (filter (isLarge cfg) (map withValue (newTrades rep))))
              st1 = Some (found, st')"
    and al: "alerted rep = alertAll up cfg found"
    by (auto simp: pollTrades_def Let_def split: option.splits)
  let ?trs = "filter isAggressive (filter (isLarge cfg) (map withValue (newTrades rep)))"
  have idw: "map id_t (map withValue xs) = map id_t xs" for xs
    by (induction xs) (simp_all add: withValue_def)
  have sub: "set (map id_t ?trs) \<subseteq> set (newIds rep)"
  proof -
    have "set (map id_t ?trs) \<subseteq> set (map id_t (map withValue (newTrades rep)))" by auto
    then show ?thesis by (simp only: idw newIds_def)
  qed
  have dist: "distinct (map id_t ?trs)" if "distinct (newIds rep)"
  proof -
    from that have "distinct (map id_t (map withValue (newTrades rep)))"
      by (simp only: idw newIds_def)
    then show ?thesis by (intro distinct_map_filter)
  qed
  obtain rest where found: "found = alerted rep @ rest" using alertAll_sub [of found up cfg] al by auto
  from analyzeAll_ids [OF a]
  have f1: "set (map (\<lambda>s. id_t (trade s)) found) \<subseteq> set (map id_t ?trs)"
    and f2: "distinct (map id_t ?trs) \<longrightarrow> distinct (map (\<lambda>s. id_t (trade s)) found)" by simp_all
  have "set (alertIds rep) \<subseteq> set (map (\<lambda>s. id_t (trade s)) found)"
    by (subst found) (auto simp: alertIds_def)
  with f1 sub show "set (alertIds rep) \<subseteq> set (newIds rep)" by blast
  show "distinct (alertIds rep)" if "distinct (newIds rep)"
  proof -
    from f2 dist [OF that] have "distinct (map (\<lambda>s. id_t (trade s)) (alerted rep @ rest))"
      using found by simp
    then show ?thesis by (simp add: alertIds_def)
  qed
qed

lemma runCycles_reports:
  "runCycles up cfg n st = Some (reps, st') \<Longrightarrow>
   \<forall>r\<in>set reps. \<exists>s s'. pollTrades up cfg s = Some (r, s')"
proof (induction n arbitrary: st reps)
  case 0
  then show ?case by simp
next
  case (Suc n)
  from Suc.prems obtain rep st1 rest where
    p: "pollTrades up cfg st = Some (rep, st1)"
    and r: "runCycles up cfg n st1 = Some (rest, st')" and reps: "reps = rep # rest"
    by (rule runCycles_Suc)
  from Suc.IH [OF r] p reps show ?case by auto
qed

lemma distinct_concat_sub:
  assumes "\<forall>r\<in>set rs. set (f r) \<subseteq> set (g r) \<and> (distinct (g r) \<longrightarrow> distinct (f r))"
    and "distinct (concat (map g rs))"
  shows "distinct (concat (map f rs))"
  using assms
proof (induction rs)
  case Nil
  then show ?case by simp
next
  case (Cons r rs)
  then have sub: "set (concat (map f rs)) \<subseteq> set (concat (map g rs))" by auto
  from Cons.prems have fr: "set (f r) \<subseteq> set (g r)" and dr: "distinct (f r)"
    and apart: "set (g r) \<inter> set (concat (map g rs)) = {}" by auto
  from fr sub apart have "set (f r) \<inter> set (concat (map f rs)) = {}" by blast
  moreover from Cons have "distinct (concat (map f rs))" by simp
  ultimately show ?case using dr by simp
qed

text \<open>
  C3, as the code has it. In every run, an identifier that is new in two cycles was
  evicted from the processed set in a cycle between them (the first of the two
  included). In a run that starts from a processed set without repetitions, in which no
  fetched batch holds an identifier twice and at most 10000 distinct identifiers are seen
  in all, nothing is evicted, no identifier is new twice, and no two alerts carry the
  same trade identifier.
\<close>

theorem no_repeat_across_cycles:
  assumes run: "runCycles up cfg n st = Some (reps, st')"
  shows "(\<forall>i j x. i < j \<and> j < length reps
            \<and> x \<in> set (newIds (reps ! i)) \<and> x \<in> set (newIds (reps ! j)) \<longrightarrow>
            (\<exists>k. i \<le> k \<and> k < j \<and> x \<in> set (evicted (reps ! k))))
       \<and> (distinct (processedTradeIds st)
          \<and> (\<forall>r\<in>set reps. distinct (map id_t (fetched r)))
          \<and> card (set (processedTradeIds st) \<union> (\<Union>r\<in>set reps. id_t ` set (fetched r))) \<le> 10000 \<longrightarrow>
            distinct (concat (map newIds reps))
          \<and> distinct (concat (map alertIds reps))
          \<and> (\<forall>r\<in>set reps. evicted r = []))"
proof (intro conjI allI impI)
  fix i j x
  assume "i < j \<and> j < length reps \<and> x \<in> set (newIds (reps ! i)) \<and> x \<in> set (newIds (reps ! j))"
  then show "\<exists>k. i \<le> k \<and> k < j \<and> x \<in> set (evicted (reps ! k))"
    using repeat_needs_eviction [OF run] by blast
next
  assume h: "distinct (processedTradeIds st)
          \<and> (\<forall>r\<in>set reps. distinct (map id_t (fetched r)))
          \<and> card (set (processedTradeIds st) \<union> (\<Union>r\<in>set reps. id_t ` set (fetched r))) \<le> 10000"
  from no_eviction_run [OF run] h
  have d: "distinct (concat (map newIds reps))" and e: "\<forall>r\<in>set reps. evicted r = []" by simp_all
  show "distinct (concat (map newIds reps))" by (rule d)
  show "\<forall>r\<in>set reps. evicted r = []" by (rule e)
  have "\<forall>r\<in>set reps. set (alertIds r) \<subseteq> set (newIds r)
                      \<and> (distinct (newIds r) \<longrightarrow> distinct (alertIds r))"
    using runCycles_reports [OF run] pollTrades_alerts by blast
  from distinct_concat_sub [OF this d] show "distinct (concat (map alertIds reps))" .
qed


lemma runCycles_fetched:
  "runCycles up cfg n st = Some (reps, st') \<Longrightarrow> (\<forall>k. tradesResponse up k = Resolved b) \<Longrightarrow>
   \<forall>r\<in>set reps. fetched r = b"
proof (induction n arbitrary: st reps)
  case 0
  then show ?case by simp
next
  case (Suc n)
  from Suc.prems(1) obtain rep st1 rest where
    p: "pollTrades up cfg st = Some (rep, st1)"
    and r: "runCycles up cfg n st1 = Some (rest, st')" and reps: "reps = rep # rest"
    by (rule runCycles_Suc)
  from pollTrades_fetched [OF p] Suc.prems(2) have "fetched rep = b" by simp
  with Suc.IH [OF r Suc.prems(2)] reps show ?case by simp
qed

theorem no_repeat_across_cycles_witness:
  "\<exists>reps st'. runCycles (feedOf [sampleTrade] []) defaultConfig 2 initialState = Some (reps, st')
      \<and> map alertIds reps = [ [''trade-1''], [] ]
      \<and> distinct (concat (map newIds reps))
      \<and> distinct (concat (map alertIds reps))"
proof -
  let ?up = "feedOf [sampleTrade] []"
  have "neverThrottled ?up" by (simp add: neverThrottled_def feedOf_def)
  from runCycles_returns [OF this] obtain reps st' where
    run: "runCycles ?up defaultConfig 2 initialState = Some (reps, st')" by blast
  have "\<forall>k. tradesResponse ?up k = Resolved [sampleTrade]" by (simp add: feedOf_def)
  from runCycles_fetched [OF run this] have f: "\<forall>r\<in>set reps. fetched r = [sampleTrade]" .
  have d: "distinct (processedTradeIds initialState)" by (simp add: initialState_def)
  have fd: "\<forall>r\<in>set reps. distinct (map id_t (fetched r))" using f by simp
  have "set (processedTradeIds initialState) \<union> (\<Union>r\<in>set reps. id_t ` set (fetched r))
          \<subseteq> {''trade-1''}"
    using f by (auto simp: initialState_def sampleTrade_fields)
  then have "card (set (processedTradeIds initialState) \<union> (\<Union>r\<in>set reps. id_t ` set (fetched r)))
          \<le> card {''trade-1''}"
    by (intro card_mono) simp_all
  then have c: "card (set (processedTradeIds initialState) \<union> (\<Union>r\<in>set reps. id_t ` set (fetched r)))
          \<le> 10000" by simp
  from no_repeat_across_cycles [OF run] d fd c
  have dist: "distinct (concat (map newIds reps))" "distinct (concat (map alertIds reps))"
    by simp_all
  have "map_option (map alertIds \<circ> fst) (runCycles ?up defaultConfig (Suc (Suc 0)) initialState)
          = Some [ [''trade-1''], [] ]"
    by (simp add: world_eval alertIds_def sampleTrade_fields)
  with run have al: "map alertIds reps = [ [''trade-1''], [] ]"
    by (simp add: numeral_2_eq_2)
  show ?thesis
  proof (intro exI conjI)
    show "runCycles ?up defaultConfig 2 initialState = Some (reps, st')" by (rule run)
    show "map alertIds reps = [ [''trade-1''], [] ]" by (rule al)
    show "distinct (concat (map newIds reps))" by (rule dist(1))
    show "distinct (concat (map alertIds reps))" by (rule dist(2))
  qed
qed

text \<open>
  The filter runs over the whole batch before any identifier is added: a batch that
  holds a trade twice yields two new trades and two alerts with one identifier, in a run
  that sees a single identifier.
\<close>

theorem duplicate_in_batch_counterexample:
  "map_option (map alertIds \<circ> fst)
     (runCycles (feedOf [sampleTrade, sampleTrade] []) defaultConfig (Suc 0) initialState)
   = Some [ [''trade-1'', ''trade-1''] ]"
  by (simp add: world_eval alertIds_def sampleTrade_fields)

subsection \<open>Two lookups of a wallet\<close>

lemma backOff_pow_frame:
  "(backOff ^^ n) (st\<lparr>clockReads := c, fetchLog := l\<rparr>) =
   ((backOff ^^ n) st)\<lparr>clockReads := c, fetchLog := l\<rparr>"
  by (induction n) (simp_all add: backOff_def)

lemma fetchUserActivity_sameMain:
  "fetchUserActivity up w st = Some (acts, st') \<Longrightarrow>
   sameMain (st\<lparr>fetchLog := fetchLog st @ [FetchActivity w]\<rparr>) st'"
  by (auto simp: fetchUserActivity_def split: option.splits dest!: withRetry_sameMain)

lemma lookupUserStats_miss_at:
  assumes miss: "\<not> cacheHit (userStatsCache st) w (dateNow up (clockReads st))"
    and t: "\<forall>i<n. activityResponse up (requests st + i) w = Rejected429"
    and u: "activityResponse up (requests st + n) w \<noteq> Rejected429"
    and acts: "acts = (case activityResponse up (requests st + n) w of Resolved a \<Rightarrow> a | _ \<Rightarrow> [])"
  shows "lookupUserStats up w st =
           Some (calculateUserStats w acts,
                 ((backOff ^^ n) st)
                   \<lparr>requests := requests st + n + 1,
                    currentBackoff := (case activityResponse up (requests st + n) w of
                                         Resolved _ \<Rightarrow> INITIAL_BACKOFF_MS
                                       | _ \<Rightarrow> currentBackoff ((backOff ^^ n) st)),
                    clockReads := clockReads st + 1,
                    fetchLog := fetchLog st @ [FetchActivity w],
                    userStatsCache := evictOldest (Map_set w
                      \<lparr>uniqueMarkets = uniqueMarkets (calculateUserStats w acts),
                       totalTrades = totalTrades (calculateUserStats w acts),
                       timestamp = dateNow up (clockReads st)\<rparr> (userStatsCache st))\<rparr>)"
proof -
  let ?stL = "st\<lparr>clockReads := Suc (clockReads st), fetchLog := fetchLog st @ [FetchActivity w]\<rparr>"
  let ?fn = "\<lambda>n. activityResponse up n w"
  have t': "\<forall>i<n. ?fn (requests ?stL + i) = Rejected429" using t by simp
  have cache: "userStatsCache ((backOff ^^ n) st) = userStatsCache st"
    by (simp add: backOff_pow_other)
  have start: "st\<lparr>clockReads := clockReads st + 1\<rparr>
                 \<lparr>fetchLog := fetchLog (st\<lparr>clockReads := clockReads st + 1\<rparr>) @ [FetchActivity w]\<rparr> = ?stL"
    by simp
  show ?thesis
  proof (cases "activityResponse up (requests st + n) w")
    case (Resolved a)
    then have "?fn (requests ?stL + n) = Resolved a" by simp
    note run = withRetry_resolved [OF t' this]
    show ?thesis
      using miss acts Resolved
      by (simp add: lookupUserStats_alt refreshUserStats_def fetchUserActivity_def start run
          backOff_pow_frame cache del: funpow.simps)
  next
    case Rejected429
    with u show ?thesis by simp
  next
    case RejectedOther
    then have "?fn (requests ?stL + n) = RejectedOther" by simp
    note run = withRetry_failed [OF t' this]
    show ?thesis
      using miss acts RejectedOther
      by (simp add: lookupUserStats_alt refreshUserStats_def fetchUserActivity_def start run
          backOff_pow_frame cache del: funpow.simps)
  qed
qed

lemma Map_has_get: "Map_has m k \<longleftrightarrow> Map_get m k \<noteq> None"
  by (simp add: Map_has_def Map_get_def map_of_eq_None_iff)

lemma evictOldest_get:
  "Map_get (evictOldest c) w = Map_get c w \<or> Map_get (evictOldest c) w = None"
  by (auto simp: evictOldest_def Map_get_def Map_delete_def delete_conv split: list.splits)

lemma Map_set_length: "length (Map_set v e c) \<le> length c + 1"
proof -
  have "length (map fst (AList.update v e c)) \<le> length (map fst c) + 1"
    by (simp only: update_keys) simp
  then show ?thesis by (simp add: Map_set_def)
qed

lemma evictOldest_length: "length (evictOldest c) \<le> length c"
  by (auto simp: evictOldest_def Map_delete_def le_SucI [OF length_delete_le] split: list.splits)

lemma Map_set_other: "v \<noteq> w \<Longrightarrow> Map_get (Map_set v e c) w = Map_get c w"
  by (simp add: Map_get_def Map_set_def update_conv')

lemma lookupUserStats_other:
  assumes run: "lookupUserStats up v st = Some (s, st')" and vw: "v \<noteq> w"
  shows "Map_get (userStatsCache st') w = Map_get (userStatsCache st) w
         \<or> Map_get (userStatsCache st') w = None"
    and "length (userStatsCache st') \<le> length (userStatsCache st) + 1"
    and "length (userStatsCache st) < 1000 \<Longrightarrow>
         Map_get (userStatsCache st') w = Map_get (userStatsCache st) w"
proof -
  let ?now = "dateNow up (clockReads st)"
  let ?st0 = "st\<lparr>clockReads := clockReads st + 1\<rparr>"
  have "userStatsCache st' = userStatsCache st
        \<or> (\<exists>e. userStatsCache st' = evictOldest (Map_set v e (userStatsCache st)))"
  proof (cases "cacheHit (userStatsCache st) v ?now")
    case True
    with run show ?thesis by (auto simp: lookupUserStats_alt split: option.splits)
  next
    case False
    with run obtain acts s1 where f: "fetchUserActivity up v ?st0 = Some (acts, s1)"
      and st': "st' = s1\<lparr>userStatsCache := evictOldest (Map_set v
                  \<lparr>uniqueMarkets = uniqueMarkets (calculateUserStats v acts),
                   totalTrades = totalTrades (calculateUserStats v acts),
                   timestamp = ?now\<rparr> (userStatsCache s1))\<rparr>"
      by (auto simp: lookupUserStats_alt refreshUserStats_def split: option.splits)
    from fetchUserActivity_sameMain [OF f] have "userStatsCache s1 = userStatsCache st"
      by (simp add: sameMain_def)
    with st' show ?thesis by auto
  qed
  then consider (same) "userStatsCache st' = userStatsCache st"
    | (stored) e where "userStatsCache st' = evictOldest (Map_set v e (userStatsCache st))"
    by blast
  note cases = this
  show "Map_get (userStatsCache st') w = Map_get (userStatsCache st) w
         \<or> Map_get (userStatsCache st') w = None"
  proof (cases rule: cases)
    case same
    then show ?thesis by simp
  next
    case (stored e)
    have "Map_get (Map_set v e (userStatsCache st)) w = Map_get (userStatsCache st) w"
      by (rule Map_set_other [OF vw])
    with evictOldest_get [of "Map_set v e (userStatsCache st)" w] stored
    show ?thesis by auto
  qed
  show "length (userStatsCache st') \<le> length (userStatsCache st) + 1"
  proof (cases rule: cases)
    case same
    then show ?thesis by simp
  next
    case (stored e)
    with evictOldest_length [of "Map_set v e (userStatsCache st)"]
      Map_set_length [of v e "userStatsCache st"]
    show ?thesis by simp
  qed
  show "Map_get (userStatsCache st') w = Map_get (userStatsCache st) w"
    if "length (userStatsCache st) < 1000"
  proof (cases rule: cases)
    case same
    then show ?thesis by simp
  next
    case (stored e)
    from that Map_set_length [of v e "userStatsCache st"]
    have "length (Map_set v e (userStatsCache st)) \<le> 1000" by simp
    then have "evictOldest (Map_set v e (userStatsCache st)) = Map_set v e (userStatsCache st)"
      by (rule evictOldest_small)
    with stored Map_set_other [OF vw] show ?thesis by simp
  qed
qed

lemma lookupSeq_entry:
  "lookupSeq up vs st = Some st' \<Longrightarrow> \<forall>v\<in>set vs. v \<noteq> w \<Longrightarrow>
   (Map_get (userStatsCache st') w = Map_get (userStatsCache st) w
      \<or> Map_get (userStatsCache st') w = None)
   \<and> length (userStatsCache st') \<le> length (userStatsCache st) + length vs
   \<and> (length (userStatsCache st) + length vs \<le> 1000 \<longrightarrow>
        Map_get (userStatsCache st') w = Map_get (userStatsCache st) w)"
proof (induction vs arbitrary: st)
  case Nil
  then show ?case by simp
next
  case (Cons v vs)
  from Cons.prems(1) obtain s st1 where
    one: "lookupUserStats up v st = Some (s, st1)" and rest: "lookupSeq up vs st1 = Some st'"
    by (auto split: option.splits)
  from Cons.prems(2) have vw: "v \<noteq> w" and others: "\<forall>v\<in>set vs. v \<noteq> w" by simp_all
  note a = lookupUserStats_other [OF one vw]
  note ih = Cons.IH [OF rest others]
  have 1: "Map_get (userStatsCache st') w = Map_get (userStatsCache st) w
      \<or> Map_get (userStatsCache st') w = None"
    using a(1) ih by auto
  have 2: "length (userStatsCache st') \<le> length (userStatsCache st) + length (v # vs)"
    using a(2) ih by simp
  have 3: "Map_get (userStatsCache st') w = Map_get (userStatsCache st) w"
    if "length (userStatsCache st) + length (v # vs) \<le> 1000"
  proof -
    from that have "length (userStatsCache st) < 1000" by simp
    from a(3) [OF this] have e: "Map_get (userStatsCache st1) w = Map_get (userStatsCache st) w" .
    from that a(2) have "length (userStatsCache st1) + length vs \<le> 1000" by simp
    with ih e show ?thesis by simp
  qed
  from 1 2 3 show ?case by blast
qed

lemma lookupUserStats_entry:
  assumes inv: "cacheInv (userStatsCache st)" and w: "w \<noteq> []"
    and run: "lookupUserStats up w st = Some (stats, st1)"
  shows "\<exists>c. Map_get (userStatsCache st1) w = Some c
           \<and> uniqueMarkets c = uniqueMarkets stats \<and> totalTrades c = totalTrades stats
           \<and> (cacheHit (userStatsCache st) w (dateNow up (clockReads st))
                \<longrightarrow> Map_get (userStatsCache st) w = Some c)
           \<and> (\<not> cacheHit (userStatsCache st) w (dateNow up (clockReads st))
                \<longrightarrow> timestamp c = dateNow up (clockReads st))"
proof (cases "cacheHit (userStatsCache st) w (dateNow up (clockReads st))")
  case True
  from lookupUserStats_hit [OF True] run True show ?thesis by auto
next
  case False
  with run obtain acts s1 where f: "fetchUserActivity up w (st\<lparr>clockReads := clockReads st + 1\<rparr>) = Some (acts, s1)"
    and stats: "stats = calculateUserStats w acts"
    and st1: "st1 = s1\<lparr>userStatsCache := evictOldest (Map_set w
                  \<lparr>uniqueMarkets = uniqueMarkets (calculateUserStats w acts),
                   totalTrades = totalTrades (calculateUserStats w acts),
                   timestamp = dateNow up (clockReads st)\<rparr> (userStatsCache s1))\<rparr>"
    by (auto simp: lookupUserStats_alt refreshUserStats_def split: option.splits)
  from fetchUserActivity_sameMain [OF f] have "userStatsCache s1 = userStatsCache st"
    by (simp add: sameMain_def)
  with Map_set_stored [OF inv w] st1 stats False show ?thesis by simp
qed

lemma otherEntries_length: "length otherEntries = 999"
  by (simp add: otherEntries_def)

lemma otherEntries_keys: "k \<in> fst ` set otherEntries \<Longrightarrow> hd k = CHR ''x''"
  by (auto simp: otherEntries_def)

lemma otherEntries_fresh:
  "''0x31a2b4c5d6e7f8'' \<notin> fst ` set otherEntries" "''0xother'' \<notin> fst ` set otherEntries"
  using otherEntries_keys [of "''0x31a2b4c5d6e7f8''"] otherEntries_keys [of "''0xother''"]
  by auto

lemma otherEntries_cacheInv:
  "distinct (map fst otherEntries)" "[] \<notin> fst ` set otherEntries"
proof -
  have "inj_on (\<lambda>n. replicate (Suc n) CHR ''x'') {0..<999}"
    by (rule inj_onI) (metis length_replicate nat.inject)
  then show "distinct (map fst otherEntries)"
    by (simp add: otherEntries_def comp_def distinct_map)
  show "[] \<notin> fst ` set otherEntries" by (auto simp: otherEntries_def)
qed

lemma update_fresh: "k \<notin> fst ` set al \<Longrightarrow> AList.update k v al = al @ [(k, v)]"
  by (induction al) auto

lemma calculateUserStats_one:
  "calculateUserStats w [sampleActivity m] = \<lparr>uniqueMarkets = 1, totalTrades = 1\<rparr>"
  by (simp add: calculateUserStats_def qualifies_def sampleActivity_fields Set_add_def Set_has_def)

lemma calculateUserStats_two:
  "calculateUserStats w [sampleActivity ''0xmarket0'', sampleActivity ''0xmarket2'']
     = \<lparr>uniqueMarkets = 2, totalTrades = 2\<rparr>"
  by (simp add: calculateUserStats_def qualifies_def sampleActivity_fields Set_add_def Set_has_def)

text \<open>
  C5, as the code has it. In a running process (cache invariant, wallet not empty):

  \<^item> a lookup that finds an entry of the wallet younger than 60000 ms returns the entry's
    statistics and changes nothing but the clock-read count: no fetch, no request;

  \<^item> any other lookup (no entry, or one at least 60000 ms old) makes exactly one call of
    \<open>fetchUserActivity\<close>. When the upstream throttles \<open>n\<close> times and then answers, the
    statistics returned are those computed from the answer (from the empty list when the
    answer is a failure), the state is the one after \<open>n\<close> back-offs and one more
    request, with the fetch logged, and the cache is the old one with the wallet's entry
    set to these statistics under the time read at this lookup, then cut by
    \<open>evictOldest\<close>; the wallet's own entry survives that cut;

  \<^item> after a lookup of the wallet and any lookups of other wallets, the wallet's entry is
    the one the first lookup left, unless it was evicted. It is not evicted when the cache
    has room for every wallet looked up in between (at most 1000 entries in all). When
    it is still there and younger than 60000 ms, a second lookup of the wallet returns the
    same statistics and only advances the clock-read count.

  An entry can be evicted before it is 60000 ms old: the cache deletes its oldest-inserted
  key as soon as it holds more than 1000 entries, and a refresh keeps the key's position.
\<close>

theorem wallet_cache_ttl:
  assumes inv: "cacheInv (userStatsCache st)" and w: "w \<noteq> []"
  shows "(cacheHit (userStatsCache st) w (dateNow up (clockReads st)) \<longrightarrow>
           (\<exists>c. Map_get (userStatsCache st) w = Some c
              \<and> lookupUserStats up w st =
                  Some (\<lparr>uniqueMarkets = uniqueMarkets c, totalTrades = totalTrades c\<rparr>,
                        st\<lparr>clockReads := clockReads st + 1\<rparr>)))
       \<and> (\<forall>n. \<not> cacheHit (userStatsCache st) w (dateNow up (clockReads st))
              \<and> (\<forall>i<n. activityResponse up (requests st + i) w = Rejected429)
              \<and> activityResponse up (requests st + n) w \<noteq> Rejected429 \<longrightarrow>
           (\<exists>acts entry st1.
                acts = (case activityResponse up (requests st + n) w of Resolved a \<Rightarrow> a | _ \<Rightarrow> [])
              \<and> entry = \<lparr>uniqueMarkets = uniqueMarkets (calculateUserStats w acts),
                         totalTrades = totalTrades (calculateUserStats w acts),
                         timestamp = dateNow up (clockReads st)\<rparr>
              \<and> lookupUserStats up w st = Some (calculateUserStats w acts, st1)
              \<and> st1 = ((backOff ^^ n) st)
                   \<lparr>requests := requests st + n + 1,
                    currentBackoff := (case activityResponse up (requests st + n) w of
                                         Resolved _ \<Rightarrow> INITIAL_BACKOFF_MS
                                       | _ \<Rightarrow> currentBackoff ((backOff ^^ n) st)),
                    clockReads := clockReads st + 1,
                    fetchLog := fetchLog st @ [FetchActivity w],
                    userStatsCache := evictOldest (Map_set w entry (userStatsCache st))\<rparr>
              \<and> fetchLog st1 = fetchLog st @ [FetchActivity w]
              \<and> Map_get (userStatsCache st1) w = Some entry
              \<and> cacheInv (userStatsCache st1)))
       \<and> (\<forall>stats st1 vs st2.
              lookupUserStats up w st = Some (stats, st1)
              \<and> (\<forall>v\<in>set vs. v \<noteq> w) \<and> lookupSeq up vs st1 = Some st2 \<longrightarrow>
           (\<exists>c. Map_get (userStatsCache st1) w = Some c
              \<and> uniqueMarkets c = uniqueMarkets stats \<and> totalTrades c = totalTrades stats
              \<and> (length (userStatsCache st1) + length vs \<le> 1000 \<longrightarrow>
                    Map_has (userStatsCache st2) w)
              \<and> (Map_has (userStatsCache st2) w
                  \<and> dateNow up (clockReads st2) - timestamp c < USER_CACHE_TTL_MS \<longrightarrow>
                    lookupUserStats up w st2 =
                      Some (stats, st2\<lparr>clockReads := clockReads st2 + 1\<rparr>))))"
proof (intro conjI allI impI)
  assume "cacheHit (userStatsCache st) w (dateNow up (clockReads st))"
  then show "\<exists>c. Map_get (userStatsCache st) w = Some c
              \<and> lookupUserStats up w st =
                  Some (\<lparr>uniqueMarkets = uniqueMarkets c, totalTrades = totalTrades c\<rparr>,
                        st\<lparr>clockReads := clockReads st + 1\<rparr>)"
    by (rule lookupUserStats_hit)
next
  fix n
  let ?acts = "case activityResponse up (requests st + n) w of Resolved a \<Rightarrow> a | _ \<Rightarrow> []"
  let ?e = "\<lparr>uniqueMarkets = uniqueMarkets (calculateUserStats w ?acts),
             totalTrades = totalTrades (calculateUserStats w ?acts),
             timestamp = dateNow up (clockReads st)\<rparr>"
  let ?st1 = "((backOff ^^ n) st)
                   \<lparr>requests := requests st + n + 1,
                    currentBackoff := (case activityResponse up (requests st + n) w of
                                         Resolved _ \<Rightarrow> INITIAL_BACKOFF_MS
                                       | _ \<Rightarrow> currentBackoff ((backOff ^^ n) st)),
                    clockReads := clockReads st + 1,
                    fetchLog := fetchLog st @ [FetchActivity w],
                    userStatsCache := evictOldest (Map_set w ?e (userStatsCache st))\<rparr>"
  assume h: "\<not> cacheHit (userStatsCache st) w (dateNow up (clockReads st))
              \<and> (\<forall>i<n. activityResponse up (requests st + i) w = Rejected429)
              \<and> activityResponse up (requests st + n) w \<noteq> Rejected429"
  then have miss: "\<not> cacheHit (userStatsCache st) w (dateNow up (clockReads st))"
    and t: "\<forall>i<n. activityResponse up (requests st + i) w = Rejected429"
    and u: "activityResponse up (requests st + n) w \<noteq> Rejected429" by simp_all
  have run: "lookupUserStats up w st = Some (calculateUserStats w ?acts, ?st1)"
    by (rule lookupUserStats_miss_at [OF miss t u refl])
  from Map_set_stored [OF inv w, of ?e]
  have stored: "cacheInv (userStatsCache ?st1)" "Map_get (userStatsCache ?st1) w = Some ?e"
    by simp_all
  have log: "fetchLog ?st1 = fetchLog st @ [FetchActivity w]" by simp
  show "\<exists>acts entry st1.
                acts = (case activityResponse up (requests st + n) w of Resolved a \<Rightarrow> a | _ \<Rightarrow> [])
              \<and> entry = \<lparr>uniqueMarkets = uniqueMarkets (calculateUserStats w acts),
                         totalTrades = totalTrades (calculateUserStats w acts),
                         timestamp = dateNow up (clockReads st)\<rparr>
              \<and> lookupUserStats up w st = Some (calculateUserStats w acts, st1)
              \<and> st1 = ((backOff ^^ n) st)
                   \<lparr>requests := requests st + n + 1,
                    currentBackoff := (case activityResponse up (requests st + n) w of
                                         Resolved _ \<Rightarrow> INITIAL_BACKOFF_MS
                                       | _ \<Rightarrow> currentBackoff ((backOff ^^ n) st)),
                    clockReads := clockReads st + 1,
                    fetchLog := fetchLog st @ [FetchActivity w],
                    userStatsCache := evictOldest (Map_set w entry (userStatsCache st))\<rparr>
              \<and> fetchLog st1 = fetchLog st @ [FetchActivity w]
              \<and> Map_get (userStatsCache st1) w = Some entry
              \<and> cacheInv (userStatsCache st1)"
  proof (intro exI [of _ ?acts] exI [of _ ?e] exI [of _ ?st1] conjI)
    show "lookupUserStats up w st = Some (calculateUserStats w ?acts, ?st1)" by (rule run)
    show "fetchLog ?st1 = fetchLog st @ [FetchActivity w]" by (rule log)
    show "Map_get (userStatsCache ?st1) w = Some ?e" by (rule stored(2))
    show "cacheInv (userStatsCache ?st1)" by (rule stored(1))
  qed (rule refl)+
next
  fix stats st1 vs st2
  assume h: "lookupUserStats up w st = Some (stats, st1)
              \<and> (\<forall>v\<in>set vs. v \<noteq> w) \<and> lookupSeq up vs st1 = Some st2"
  then have run: "lookupUserStats up w st = Some (stats, st1)"
    and others: "\<forall>v\<in>set vs. v \<noteq> w" and seq: "lookupSeq up vs st1 = Some st2" by simp_all
  from lookupUserStats_entry [OF inv w run] obtain c where
    c: "Map_get (userStatsCache st1) w = Some c"
    and s: "uniqueMarkets c = uniqueMarkets stats" "totalTrades c = totalTrades stats" by blast
  note e = lookupSeq_entry [OF seq others]
  have room: "Map_has (userStatsCache st2) w" if "length (userStatsCache st1) + length vs \<le> 1000"
    using e that c by (simp add: Map_has_get)
  have again: "lookupUserStats up w st2 = Some (stats, st2\<lparr>clockReads := clockReads st2 + 1\<rparr>)"
    if "Map_has (userStatsCache st2) w \<and> dateNow up (clockReads st2) - timestamp c < USER_CACHE_TTL_MS"
  proof -
    from that e c have c2: "Map_get (userStatsCache st2) w = Some c" by (auto simp: Map_has_get)
    with that have "cacheHit (userStatsCache st2) w (dateNow up (clockReads st2))"
      by (simp add: cacheHit_def)
    from lookupUserStats_hit [OF this] c2 s show ?thesis by simp
  qed
  show "\<exists>c. Map_get (userStatsCache st1) w = Some c
              \<and> uniqueMarkets c = uniqueMarkets stats \<and> totalTrades c = totalTrades stats
              \<and> (length (userStatsCache st1) + length vs \<le> 1000 \<longrightarrow>
                    Map_has (userStatsCache st2) w)
              \<and> (Map_has (userStatsCache st2) w
                  \<and> dateNow up (clockReads st2) - timestamp c < USER_CACHE_TTL_MS \<longrightarrow>
                    lookupUserStats up w st2 =
                      Some (stats, st2\<lparr>clockReads := clockReads st2 + 1\<rparr>))"
    using c s room again by (intro exI [of _ c]) blast
qed

theorem wallet_cache_ttl_witness:
  "\<exists>st1 st2.
      lookupUserStats slowUpstream ''0x31a2b4c5d6e7f8'' initialState
        = Some (\<lparr>uniqueMarkets = 1, totalTrades = 1\<rparr>, st1)
    \<and> requests st1 = 2 \<and> sleeps st1 = [1000]
    \<and> fetchLog st1 = [FetchActivity ''0x31a2b4c5d6e7f8'']
    \<and> userStatsCache st1 =
        [(''0x31a2b4c5d6e7f8'', \<lparr>uniqueMarkets = 1, totalTrades = 1, timestamp = 1000\<rparr>)]
    \<and> lookupSeq slowUpstream [''0xother''] st1 = Some st2
    \<and> fetchLog st2 = [FetchActivity ''0x31a2b4c5d6e7f8'', FetchActivity ''0xother'']
    \<and> Map_has (userStatsCache st2) ''0x31a2b4c5d6e7f8''
    \<and> lookupUserStats slowUpstream ''0x31a2b4c5d6e7f8'' st2
        = Some (\<lparr>uniqueMarkets = 1, totalTrades = 1\<rparr>, st2\<lparr>clockReads := clockReads st2 + 1\<rparr>)"
proof -
  let ?U = slowUpstream
  let ?W = "''0x31a2b4c5d6e7f8''"
  let ?V = "''0xother''"
  let ?e = "\<lparr>uniqueMarkets = 1, totalTrades = 1, timestamp = 1000\<rparr>"
  let ?s = "\<lparr>uniqueMarkets = 1, totalTrades = 1\<rparr>"
  let ?st1 = "initialState\<lparr>requests := 2, sleeps := [1000], clockReads := 1,
                fetchLog := [FetchActivity ?W], userStatsCache := [(?W, ?e)]\<rparr>"
  let ?st2 = "initialState\<lparr>requests := 3, sleeps := [1000], clockReads := 2,
                fetchLog := [FetchActivity ?W, FetchActivity ?V],
                userStatsCache := [(?W, ?e), (?V, ?e)]\<rparr>"
  note defs = slowUpstream_def feedOf_def initialState_def cacheHit_def Map_get_def Map_has_def
    Map_set_def evictOldest_def backOff_def calculateUserStats_one cacheInv_def
    INITIAL_BACKOFF_MS_def MAX_BACKOFF_MS_def BACKOFF_MULTIPLIER_def USER_CACHE_TTL_MS_def
  have wne: "?W \<noteq> []" and vne: "?V \<noteq> []" by simp_all
  have inv0: "cacheInv (userStatsCache initialState)" by (simp add: defs)
  have inv1: "cacheInv (userStatsCache ?st1)" by (simp add: defs)
  have inv2: "cacheInv (userStatsCache ?st2)" by (simp add: defs)
  have h0: "\<not> cacheHit (userStatsCache initialState) ?W (dateNow ?U (clockReads initialState))
      \<and> (\<forall>i<1. activityResponse ?U (requests initialState + i) ?W = Rejected429)
      \<and> activityResponse ?U (requests initialState + 1) ?W \<noteq> Rejected429"
    by (simp add: defs)
  have run1: "lookupUserStats ?U ?W initialState = Some (?s, ?st1)"
    using wallet_cache_ttl [OF inv0 wne, of ?U, THEN conjunct2, THEN conjunct1, rule_format, of 1, OF h0]
    by (simp add: defs)
  have h1: "\<not> cacheHit (userStatsCache ?st1) ?V (dateNow ?U (clockReads ?st1))
      \<and> (\<forall>i<0. activityResponse ?U (requests ?st1 + i) ?V = Rejected429)
      \<and> activityResponse ?U (requests ?st1 + 0) ?V \<noteq> Rejected429"
    by (simp add: defs)
  have run2: "lookupUserStats ?U ?V ?st1 = Some (?s, ?st2)"
    using wallet_cache_ttl [OF inv1 vne, of ?U, THEN conjunct2, THEN conjunct1, rule_format, of 0, OF h1]
    by (simp add: defs)
  have seq: "lookupSeq ?U [?V] ?st1 = Some ?st2"
    by (simp only: lookupSeq.simps run2 option.case prod.case)
  have h3: "lookupUserStats ?U ?W initialState = Some (?s, ?st1)
      \<and> (\<forall>v\<in>set [?V]. v \<noteq> ?W) \<and> lookupSeq ?U [?V] ?st1 = Some ?st2"
    using run1 seq by simp
  have again: "Map_has (userStatsCache ?st2) ?W
      \<and> lookupUserStats ?U ?W ?st2 = Some (?s, ?st2\<lparr>clockReads := clockReads ?st2 + 1\<rparr>)"
    using wallet_cache_ttl [OF inv0 wne, of ?U, THEN conjunct2, THEN conjunct2, rule_format,
        of ?s ?st1 "[?V]" ?st2, OF h3]
    by (simp add: defs)
  have hit: "cacheHit (userStatsCache ?st2) ?W (dateNow ?U (clockReads ?st2))"
    by (simp add: defs)
  have direct: "lookupUserStats ?U ?W ?st2 = Some (?s, ?st2\<lparr>clockReads := clockReads ?st2 + 1\<rparr>)"
    using wallet_cache_ttl [OF inv2 wne, of ?U, THEN conjunct1, rule_format, OF hit]
    by (simp add: defs)
  show ?thesis
  proof (rule exI [of _ ?st1], rule exI [of _ ?st2], intro conjI)
    show "lookupUserStats ?U ?W initialState = Some (?s, ?st1)" by (rule run1)
    show "lookupSeq ?U [?V] ?st1 = Some ?st2" by (rule seq)
    show "Map_has (userStatsCache ?st2) ?W" by (rule again [THEN conjunct1])
    show "lookupUserStats ?U ?W ?st2 = Some (?s, ?st2\<lparr>clockReads := clockReads ?st2 + 1\<rparr>)"
      by (rule direct)
  qed simp_all
qed

text \<open>
  A cache of 1000 entries whose oldest key is the sample wallet, its entry stale. The
  lookup refreshes the entry in place (statistics 1 and 1, timestamp 100000); the lookup of
  one new wallet makes 1001 entries and deletes the oldest key, which is the sample
  wallet; the next lookup of the sample wallet, at the same instant, finds no entry,
  fetches again and returns 2 and 2.
\<close>

theorem evicted_entry_counterexample:
  "cacheInv (userStatsCache crowdedState)
   \<and> (case lookupUserStats changingUpstream ''0x31a2b4c5d6e7f8'' crowdedState of
        None \<Rightarrow> None
      | Some (stats1, st1) \<Rightarrow>
          (case lookupSeq changingUpstream [''0xother''] st1 of
             None \<Rightarrow> None
           | Some st2 \<Rightarrow>
               (case lookupUserStats changingUpstream ''0x31a2b4c5d6e7f8'' st2 of
                  None \<Rightarrow> None
                | Some (stats2, st3) \<Rightarrow>
                    Some (stats1, Map_get (userStatsCache st1) ''0x31a2b4c5d6e7f8'',
                          dateNow changingUpstream (clockReads st2),
                          Map_has (userStatsCache st2) ''0x31a2b4c5d6e7f8'',
                          stats2, fetchLog st2, fetchLog st3))))
     = Some (\<lparr>uniqueMarkets = 1, totalTrades = 1\<rparr>,
             Some \<lparr>uniqueMarkets = 1, totalTrades = 1, timestamp = 100000\<rparr>,
             100000,
             False,
             \<lparr>uniqueMarkets = 2, totalTrades = 2\<rparr>,
             [FetchActivity ''0x31a2b4c5d6e7f8'', FetchActivity ''0xother''],
             [FetchActivity ''0x31a2b4c5d6e7f8'', FetchActivity ''0xother'',
              FetchActivity ''0x31a2b4c5d6e7f8''])"
proof -
  let ?U = changingUpstream
  let ?W = "''0x31a2b4c5d6e7f8''"
  let ?V = "''0xother''"
  let ?e1 = "\<lparr>uniqueMarkets = 1, totalTrades = 1, timestamp = 100000\<rparr>"
  let ?e2 = "\<lparr>uniqueMarkets = 2, totalTrades = 2, timestamp = 100000\<rparr>"
  let ?st1 = "crowdedState\<lparr>requests := 1, clockReads := 1, fetchLog := [FetchActivity ?W],
                userStatsCache := (?W, ?e1) # otherEntries\<rparr>"
  let ?st2 = "crowdedState\<lparr>requests := 2, clockReads := 2,
                fetchLog := [FetchActivity ?W, FetchActivity ?V],
                userStatsCache := otherEntries @ [(?V, ?e2)]\<rparr>"
  have now: "\<And>n. dateNow ?U n = 100000" by (simp add: changingUpstream_def)
  have inv: "cacheInv (userStatsCache crowdedState)"
    using otherEntries_cacheInv otherEntries_fresh
    by (simp add: cacheInv_def crowdedState_def otherEntries_length)
  have resp0: "\<And>w. activityResponse ?U 0 w = Resolved [sampleActivity ''0xmarket0'']"
    by (simp add: changingUpstream_def)
  have resp: "\<And>k w. k \<noteq> 0 \<Longrightarrow> activityResponse ?U k w
                = Resolved [sampleActivity ''0xmarket0'', sampleActivity ''0xmarket2'']"
    by (simp add: changingUpstream_def)
  have miss1: "\<not> cacheHit (userStatsCache crowdedState) ?W (dateNow ?U (clockReads crowdedState))"
    by (simp add: cacheHit_def Map_get_def crowdedState_def now USER_CACHE_TTL_MS_def)
  have t1: "\<forall>i<0. activityResponse ?U (requests crowdedState + i) ?W = Rejected429" by simp
  have run1: "lookupUserStats ?U ?W crowdedState = Some (\<lparr>uniqueMarkets = 1, totalTrades = 1\<rparr>, ?st1)"
    by (subst lookupUserStats_miss_at [OF miss1 t1 _ refl])
       (simp_all add: resp0 calculateUserStats_one now crowdedState_def initialState_def
          Map_set_def evictOldest_def otherEntries_length)
  have miss2: "\<not> cacheHit (userStatsCache ?st1) ?V (dateNow ?U (clockReads ?st1))"
    using otherEntries_fresh(2)
    by (simp add: cacheHit_def Map_get_def map_of_eq_None_iff [THEN iffD2])
  have t2: "\<forall>i<0. activityResponse ?U (requests ?st1 + i) ?V = Rejected429" by simp
  have del: "AList.delete ?W (otherEntries @ [(?V, ?e2)]) = otherEntries @ [(?V, ?e2)]"
    using otherEntries_fresh(1) by (intro delete_id) simp
  have run2: "lookupUserStats ?U ?V ?st1 = Some (\<lparr>uniqueMarkets = 2, totalTrades = 2\<rparr>, ?st2)"
    by (subst lookupUserStats_miss_at [OF miss2 t2 _ refl])
       (simp_all add: resp calculateUserStats_two now crowdedState_def initialState_def
          Map_set_def Map_delete_def evictOldest_def otherEntries_length
          update_fresh [OF otherEntries_fresh(2)] del)
  have seq: "lookupSeq ?U [?V] ?st1 = Some ?st2"
    by (simp only: lookupSeq.simps run2 option.case prod.case)
  have gone: "Map_get (userStatsCache ?st2) ?W = None"
    using otherEntries_fresh(1) by (simp add: Map_get_def map_of_eq_None_iff [THEN iffD2])
  then have miss3: "\<not> cacheHit (userStatsCache ?st2) ?W (dateNow ?U (clockReads ?st2))"
    by (simp add: cacheHit_def)
  have t3: "\<forall>i<0. activityResponse ?U (requests ?st2 + i) ?W = Rejected429" by simp
  have u3: "activityResponse ?U (requests ?st2 + 0) ?W \<noteq> Rejected429" by (simp add: resp)
  note run3 = lookupUserStats_miss_at [OF miss3 t3 u3 refl]
  have has: "\<not> Map_has (userStatsCache ?st2) ?W"
    using gone by (simp add: Map_has_get)
  have entry: "Map_get (userStatsCache ?st1) ?W = Some ?e1" by (simp add: Map_get_def)
  have "(case lookupUserStats ?U ?W crowdedState of
        None \<Rightarrow> None
      | Some (stats1, st1) \<Rightarrow>
          (case lookupSeq ?U [?V] st1 of
             None \<Rightarrow> None
           | Some st2 \<Rightarrow>
               (case lookupUserStats ?U ?W st2 of
                  None \<Rightarrow> None
                | Some (stats2, st3) \<Rightarrow>
                    Some (stats1, Map_get (userStatsCache st1) ?W,
                          dateNow ?U (clockReads st2),
                          Map_has (userStatsCache st2) ?W,
                          stats2, fetchLog st2, fetchLog st3))))
     = Some (\<lparr>uniqueMarkets = 1, totalTrades = 1\<rparr>, Some ?e1, 100000, False,
             calculateUserStats ?W [sampleActivity ''0xmarket0'', sampleActivity ''0xmarket2''],
             [FetchActivity ?W, FetchActivity ?V],
             [FetchActivity ?W, FetchActivity ?V] @ [FetchActivity ?W])"
    using has entry
    by (simp only: run1 option.case prod.case seq run3)
       (simp add: resp now del: funpow.simps)
  with inv show ?thesis by (simp only: calculateUserStats_two append.simps)
qed

end
